theory Spec2Isabelle
  imports Complex_Main "HOL-Library.Word"
begin

section \<open>Numbers and small vectors\<close>

text \<open>
  The C++ sources compute in \<^verbatim>\<open>double\<close> with Eigen. Throughout this development a
  \<^verbatim>\<open>double\<close> is an exact real number: rounding, infinities and NaN are outside the
  model. \<^verbatim>\<open>uint64_t\<close> identifiers are 64-bit words, \<^verbatim>\<open>size_t\<close> indices and counts are
  natural numbers (they only index and count \<^verbatim>\<open>std::vector\<close>s here).

  C++ member names end in an underscore, which is not a legal end of a name here; the
  members \<^verbatim>\<open>points_\<close>, \<^verbatim>\<open>camIndices_\<close>, ... are written \<open>points_m\<close>, \<open>camIndices_m\<close>, ...
\<close>

type_synonym Vector3d = "real \<times> real \<times> real"
type_synonym Vector4d = "real \<times> real \<times> real \<times> real"
type_synonym Matrix3d = "Vector3d \<times> Vector3d \<times> Vector3d"

text \<open>\<^verbatim>\<open>Eigen::Quaterniond(w, x, y, z)\<close>.\<close>

record Quaterniond =
  qw :: real
  qx :: real
  qy :: real
  qz :: real

text \<open>\<^verbatim>\<open>hp[3]\<close> and \<^verbatim>\<open>hp.head<3>() / hp[3]\<close> of a homogeneous point.\<close>

definition hp3 :: "Vector4d \<Rightarrow> real" where
  "hp3 hp = (case hp of (x, y, z, w) \<Rightarrow> w)"

definition head3_div :: "Vector4d \<Rightarrow> Vector3d" where
  "head3_div hp = (case hp of (x, y, z, w) \<Rightarrow> (x / w, y / w, z / w))"

definition squaredNorm :: "Vector3d \<Rightarrow> real" where
  "squaredNorm v = (case v of (x, y, z) \<Rightarrow> x * x + y * y + z * z)"

definition norm3 :: "Vector3d \<Rightarrow> real" where
  "norm3 v = sqrt (squaredNorm v)"

text \<open>
  \<^verbatim>\<open>bearing.normalize()\<close>: Eigen divides by the norm when the squared norm is positive and
  leaves the vector as it is otherwise.
\<close>

definition normalize :: "Vector3d \<Rightarrow> Vector3d" where
  "normalize v =
     (let z = squaredNorm v in
      if z > 0 then (case v of (x, y, z') \<Rightarrow> (x / sqrt z, y / sqrt z, z' / sqrt z))
      else v)"

text \<open>
  \<^verbatim>\<open>Eigen::Quaterniond::toRotationMatrix\<close>, the matrix \<^verbatim>\<open>C()\<close> of a transformation, by rows.
\<close>

definition toRotationMatrix :: "Quaterniond \<Rightarrow> Matrix3d" where
  "toRotationMatrix p =
     (let w = qw p; x = qx p; y = qy p; z = qz p in
      ((1 - 2 * (y * y + z * z), 2 * (x * y - w * z), 2 * (x * z + w * y)),
       (2 * (x * y + w * z), 1 - 2 * (x * x + z * z), 2 * (y * z - w * x)),
       (2 * (x * z - w * y), 2 * (y * z + w * x), 1 - 2 * (x * x + y * y))))"

text \<open>
  \<^verbatim>\<open>okvis::kinematics::Transformation\<close>: a translation \<^verbatim>\<open>r()\<close> and a quaternion \<^verbatim>\<open>q()\<close>;
  \<^verbatim>\<open>C()\<close> is the rotation matrix of \<^verbatim>\<open>q()\<close>.
\<close>

record Transformation =
  T_r :: Vector3d
  T_q :: Quaterniond

definition T_C :: "Transformation \<Rightarrow> Matrix3d" where
  "T_C T = toRotationMatrix (T_q T)"

section \<open>LoopclosureNoncentralAbsoluteAdapter\<close>

subsection \<open>The collaborators the constructor reads\<close>

text \<open>
  \<^verbatim>\<open>okvis::cameras::NCameraSystem\<close> and \<^verbatim>\<open>okvis::MultiFrame\<close> are defined in other files
  of the repository; the constructor only calls the observers below, so each object is the record of
  its observers. \<^verbatim>\<open>NCameraSystem::DistortionType\<close> has the three enumerators the
  constructor's \<^verbatim>\<open>switch\<close> names and \<^verbatim>\<open>NoDistortion\<close>, which reaches its \<^verbatim>\<open>default\<close>.
\<close>

datatype DistortionType = Equidistant | RadialTangential | NoDistortion | RadialTangential8

record NCameraSystem =
  numCameras :: nat
  distortionType :: "nat \<Rightarrow> DistortionType"

text \<open>
  \<open>focalLengthU frameB im\<close> is
  \<^verbatim>\<open>frameB->geometryAs<PinholeCamera<...>>(im)->focalLengthU()\<close>;
  \<open>getKeypointSize\<close> is the value \<^verbatim>\<open>getKeypointSize(im, k, size)\<close> writes;
  \<open>getBackProjection\<close> is the flag \<^verbatim>\<open>getBackProjection(im, k, bearing)\<close> returns, with
  the vector it writes. \<^verbatim>\<open>getKeypoint\<close> is called too, but the pixel it writes is not read.
  The observers are total: the frame is taken to have every camera of the rig, and the
  constructor asks for keypoints below \<open>numKeypoints\<close> only.
\<close>

record MultiFrame =
  frameId :: "64 word"
  T_SC :: "nat \<Rightarrow> Transformation"
  numKeypoints :: "nat \<Rightarrow> nat"
  focalLengthU :: "nat \<Rightarrow> real"
  getKeypointSize :: "nat \<Rightarrow> nat \<Rightarrow> real"
  getBackProjection :: "nat \<Rightarrow> nat \<Rightarrow> bool \<times> Vector3d"

text \<open>\<^verbatim>\<open>okvis::KeypointIdentifier(frameId, cameraIndex, keypointIndex)\<close>.\<close>

type_synonym KeypointIdentifier = "64 word \<times> nat \<times> nat"

text \<open>
  \<^verbatim>\<open>std::map<KeypointIdentifier, uint64_t>\<close> and the landmark table \<^verbatim>\<open>Points\<close>, a map from
  landmark id to homogeneous point.
\<close>

type_synonym Matches = "KeypointIdentifier \<rightharpoonup> 64 word"
type_synonym Points = "64 word \<rightharpoonup> Vector4d"

subsection \<open>The adapter and its constructor\<close>

record Adapter =
  camOffsets_m :: "Vector3d list"
  camRotations_m :: "Matrix3d list"
  points_m :: "Vector3d list"
  bearingVectors_m :: "Vector3d list"
  sigmaAngles_m :: "real list"
  camIndices_m :: "nat list"
  keypointIndices_m :: "nat list"

text \<open>
  \<open>Exception msg\<close> is the exception of \<^verbatim>\<open>OKVIS_ASSERT_TRUE\<close> and \<^verbatim>\<open>OKVIS_THROW\<close>;
  \<open>out_of_range\<close> is \<^verbatim>\<open>std::out_of_range\<close>, thrown by \<^verbatim>\<open>points.at(lmId)\<close> for an id that is
  not in the table. A failed construction is \<open>Inl (e, a)\<close>: the exception, and the members
  as they were when it was thrown.
\<close>

datatype error = Exception string | out_of_range

type_synonym construction = "(error \<times> Adapter) + Adapter"

definition emptyAdapter :: Adapter where
  "emptyAdapter =
     \<lparr>camOffsets_m = [], camRotations_m = [], points_m = [], bearingVectors_m = [],
      sigmaAngles_m = [], camIndices_m = [], keypointIndices_m = []\<rparr>"

text \<open>
  The first loop, over \<open>i = 1, ..., numCameras - 1\<close>: every camera has the distortion type
  of camera 0.
\<close>

fun checkDistortionTypes :: "NCameraSystem \<Rightarrow> DistortionType \<Rightarrow> nat list \<Rightarrow> error + unit" where
  "checkDistortionTypes nCameraSystem dt [] = Inr ()"
| "checkDistortionTypes nCameraSystem dt (i # is) =
     (if dt = distortionType nCameraSystem i
      then checkDistortionTypes nCameraSystem dt is
      else Inl (Exception ''mixed frame types are not supported yet''))"

text \<open>The \<^verbatim>\<open>switch\<close> that reads the focal length of camera \<open>im\<close>.\<close>

definition focalLength :: "DistortionType \<Rightarrow> MultiFrame \<Rightarrow> nat \<Rightarrow> error + real" where
  "focalLength dt frameB im =
     (case dt of
        RadialTangential \<Rightarrow> Inr (focalLengthU frameB im)
      | RadialTangential8 \<Rightarrow> Inr (focalLengthU frameB im)
      | Equidistant \<Rightarrow> Inr (focalLengthU frameB im)
      | NoDistortion \<Rightarrow> Inl (Exception ''Unsupported distortion type''))"

text \<open>The body of the loop over the keypoints \<open>k\<close> of camera \<open>im\<close>.\<close>

definition addKeypoint ::
  "Points \<Rightarrow> Matches \<Rightarrow> MultiFrame \<Rightarrow> real \<Rightarrow> nat \<Rightarrow> nat \<Rightarrow> Adapter \<Rightarrow> construction" where
  "addKeypoint points matches frameB fu im k a =
     (let kid = (frameId frameB, im, k) in
      case matches kid of
        None \<Rightarrow> Inr a
      | Some lmId \<Rightarrow>
          if lmId = 0 then Inr a
          else
            (case points lmId of
               None \<Rightarrow> Inl (out_of_range, a)
             | Some hp \<Rightarrow>
                 if \<bar>hp3 hp\<bar> < 1 / 10 ^ 8 then Inr a
                 else
                   (let a1 = a\<lparr>points_m := points_m a @ [head3_div hp]\<rparr>;
                        keypointStdDev = 0.8 * getKeypointSize frameB im k / 12;
                        bearing =
                          (if \<not> fst (getBackProjection frameB im k) then (1, 0, 0)
                           else snd (getBackProjection frameB im k));
                        a2 = a1\<lparr>sigmaAngles_m := sigmaAngles_m a1 @
                               [sqrt 2 * keypointStdDev * keypointStdDev / (fu * fu)]\<rparr>;
                        a3 = a2\<lparr>bearingVectors_m := bearingVectors_m a2 @ [normalize bearing]\<rparr>;
                        a4 = a3\<lparr>camIndices_m := camIndices_m a3 @ [im]\<rparr>
                    in Inr (a4\<lparr>keypointIndices_m := keypointIndices_m a4 @ [k]\<rparr>))))"

fun keypointLoop ::
  "Points \<Rightarrow> Matches \<Rightarrow> MultiFrame \<Rightarrow> real \<Rightarrow> nat \<Rightarrow> nat list \<Rightarrow> Adapter \<Rightarrow> construction" where
  "keypointLoop points matches frameB fu im [] a = Inr a"
| "keypointLoop points matches frameB fu im (k # ks) a =
     (case addKeypoint points matches frameB fu im k a of
        Inl e \<Rightarrow> Inl e
      | Inr a' \<Rightarrow> keypointLoop points matches frameB fu im ks a')"

text \<open>The body of the loop over the cameras \<open>im\<close>.\<close>

definition addCamera ::
  "Points \<Rightarrow> Matches \<Rightarrow> DistortionType \<Rightarrow> MultiFrame \<Rightarrow> nat \<Rightarrow> Adapter \<Rightarrow> construction" where
  "addCamera points matches dt frameB im a =
     (let a1 = a\<lparr>camOffsets_m := camOffsets_m a @ [T_r (T_SC frameB im)]\<rparr>;
          a2 = a1\<lparr>camRotations_m := camRotations_m a1 @ [T_C (T_SC frameB im)]\<rparr>;
          numK = numKeypoints frameB im
      in case focalLength dt frameB im of
           Inl e \<Rightarrow> Inl (e, a2)
         | Inr fu \<Rightarrow> keypointLoop points matches frameB fu im [0..<numK] a2)"

fun cameraLoop ::
  "Points \<Rightarrow> Matches \<Rightarrow> DistortionType \<Rightarrow> MultiFrame \<Rightarrow> nat list \<Rightarrow> Adapter \<Rightarrow> construction" where
  "cameraLoop points matches dt frameB [] a = Inr a"
| "cameraLoop points matches dt frameB (im # ims) a =
     (case addCamera points matches dt frameB im a of
        Inl e \<Rightarrow> Inl e
      | Inr a' \<Rightarrow> cameraLoop points matches dt frameB ims a')"

text \<open>The constructor.\<close>

definition LoopclosureNoncentralAbsoluteAdapter ::
  "Points \<Rightarrow> Matches \<Rightarrow> NCameraSystem \<Rightarrow> MultiFrame \<Rightarrow> construction" where
  "LoopclosureNoncentralAbsoluteAdapter points matches nCameraSystem frameB =
     (let numCameras' = numCameras nCameraSystem;
          distortionType' = distortionType nCameraSystem 0
      in case checkDistortionTypes nCameraSystem distortionType'
                [1..<numCameras nCameraSystem] of
           Inl e \<Rightarrow> Inl (e, emptyAdapter)
         | Inr _ \<Rightarrow>
             cameraLoop points matches distortionType' frameB [0..<numCameras'] emptyAdapter)"

subsection \<open>The accessors\<close>

text \<open>
  The accessors index \<^verbatim>\<open>std::vector\<close>s without a range check (\<^verbatim>\<open>getBearingVector\<close> and
  \<^verbatim>\<open>getPoint\<close> under an \<^verbatim>\<open>assert\<close> on the bearing vectors' size); an index out of range is
  \<open>None\<close> here.
\<close>

definition elem :: "'a list \<Rightarrow> nat \<Rightarrow> 'a option" where
  "elem xs i = (if i < length xs then Some (xs ! i) else None)"

definition getBearingVector :: "Adapter \<Rightarrow> nat \<Rightarrow> Vector3d option" where
  "getBearingVector a index = elem (bearingVectors_m a) index"

definition getPoint :: "Adapter \<Rightarrow> nat \<Rightarrow> Vector3d option" where
  "getPoint a index =
     (if index < length (bearingVectors_m a) then elem (points_m a) index else None)"

definition getCamOffset :: "Adapter \<Rightarrow> nat \<Rightarrow> Vector3d option" where
  "getCamOffset a index =
     (case elem (camIndices_m a) index of
        None \<Rightarrow> None
      | Some c \<Rightarrow> elem (camOffsets_m a) c)"

definition getCamRotation :: "Adapter \<Rightarrow> nat \<Rightarrow> Matrix3d option" where
  "getCamRotation a index =
     (case elem (camIndices_m a) index of
        None \<Rightarrow> None
      | Some c \<Rightarrow> elem (camRotations_m a) c)"

definition getNumberCorrespondences :: "Adapter \<Rightarrow> nat" where
  "getNumberCorrespondences a = length (points_m a)"

definition getSigmaAngle :: "Adapter \<Rightarrow> nat \<Rightarrow> real option" where
  "getSigmaAngle a index = elem (sigmaAngles_m a) index"

section \<open>RelativePoseError\<close>

subsection \<open>Matrices and vectors of Eigen\<close>

text \<open>
  A dense Eigen matrix is the function from row and column index to the coefficient, a
  vector the function from the index; of a \<open>6 \<times> 6\<close> matrix only the indices below 6 are
  read. The operations take the dimension \<open>n\<close>.
\<close>

type_synonym Matrix = "nat \<Rightarrow> nat \<Rightarrow> real"
type_synonym Vector = "nat \<Rightarrow> real"

definition mat_mul :: "nat \<Rightarrow> Matrix \<Rightarrow> Matrix \<Rightarrow> Matrix" where
  "mat_mul n A B = (\<lambda>i j. \<Sum>l<n. A i l * B l j)"

definition mat_vec :: "nat \<Rightarrow> Matrix \<Rightarrow> Vector \<Rightarrow> Vector" where
  "mat_vec n A x = (\<lambda>i. \<Sum>j<n. A i j * x j)"

definition transposed :: "Matrix \<Rightarrow> Matrix" where
  "transposed A = (\<lambda>i j. A j i)"

definition Identity :: Matrix where
  "Identity = (\<lambda>i j. if i = j then 1 else 0)"

subsection \<open>Eigen::LLT\<close>

text \<open>
  \<^verbatim>\<open>Eigen::LLT<information_t>\<close> is library code; this is its in-place algorithm for a
  matrix of this size (\<^verbatim>\<open>llt_inplace<Scalar, Lower>::unblocked\<close>) in exact arithmetic.
  Pass \<open>k\<close> of its loop reads the diagonal coefficient less the squared norm of the row to
  its left, returns \<open>k\<close> when that is not positive, and otherwise writes its square root on
  the diagonal and finishes the column below it.
\<close>

definition llt_column :: "nat \<Rightarrow> Matrix \<Rightarrow> nat \<Rightarrow> Matrix option" where
  "llt_column n mat k =
     (let x = mat k k - (\<Sum>j<k. mat k j * mat k j) in
      if x \<le> 0 then None
      else Some (\<lambda>i j.
        if j = k \<and> i = k then sqrt x
        else if j = k \<and> k < i \<and> i < n then (mat i k - (\<Sum>l<k. mat i l * mat k l)) / sqrt x
        else mat i j))"

text \<open>
  The loop: the matrix as it is left, and the index the algorithm returns (\<open>- 1\<close> when
  every pass went through).
\<close>

fun llt_unblocked :: "nat \<Rightarrow> nat list \<Rightarrow> Matrix \<Rightarrow> Matrix \<times> int" where
  "llt_unblocked n [] mat = (mat, - 1)"
| "llt_unblocked n (k # ks) mat =
     (case llt_column n mat k of
        None \<Rightarrow> (mat, int k)
      | Some mat' \<Rightarrow> llt_unblocked n ks mat')"

datatype ComputationInfo = Success | NumericalIssue

record LLT =
  m_matrix :: Matrix
  m_info :: ComputationInfo

text \<open>The constructor \<^verbatim>\<open>LLT(matrix)\<close>, which calls \<^verbatim>\<open>compute\<close>, and \<^verbatim>\<open>matrixL()\<close>.\<close>

definition LLT_compute :: "nat \<Rightarrow> Matrix \<Rightarrow> LLT" where
  "LLT_compute n a =
     (let r = llt_unblocked n [0..<n] a in
      \<lparr>m_matrix = fst r, m_info = (if snd r = - 1 then Success else NumericalIssue)\<rparr>)"

definition matrixL :: "LLT \<Rightarrow> Matrix" where
  "matrixL llt = (\<lambda>i j. if j \<le> i then m_matrix llt i j else 0)"

subsection \<open>Eigen's inverse\<close>

text \<open>
  \<^verbatim>\<open>information.inverse()\<close> is library code as well. For a matrix of this size Eigen
  eliminates with partial pivoting; in exact arithmetic the result on an invertible matrix
  is its inverse, which Gauss-Jordan elimination with the same choice of pivot computes.
  On a singular matrix Eigen's result has coefficients that are no numbers, and the value of
  this model (which divides by a zero pivot, \<open>x / 0 = 0\<close>) has no meaning.
\<close>

fun argmax_abs :: "Matrix \<Rightarrow> nat \<Rightarrow> nat list \<Rightarrow> nat \<Rightarrow> nat" where
  "argmax_abs A k [] p = p"
| "argmax_abs A k (i # is) p = argmax_abs A k is (if \<bar>A p k\<bar> < \<bar>A i k\<bar> then i else p)"

definition pivot_row :: "nat \<Rightarrow> Matrix \<Rightarrow> nat \<Rightarrow> nat" where
  "pivot_row n A k = argmax_abs A k [Suc k..<n] k"

definition swap_rows :: "nat \<Rightarrow> nat \<Rightarrow> Matrix \<Rightarrow> Matrix" where
  "swap_rows p k A = (\<lambda>i j. if i = k then A p j else if i = p then A k j else A i j)"

text \<open>
  One column of the elimination on the pair (matrix, accumulated inverse): bring the pivot
  to row \<open>k\<close>, divide that row by the pivot, and clear column \<open>k\<close> in every other row.
\<close>

definition eliminate :: "Matrix \<Rightarrow> nat \<Rightarrow> Matrix \<Rightarrow> Matrix" where
  "eliminate A k X =
     (\<lambda>i j. if i = k then X k j / A k k else X i j - A i k * (X k j / A k k))"

definition gauss_jordan_step :: "nat \<Rightarrow> Matrix \<times> Matrix \<Rightarrow> nat \<Rightarrow> Matrix \<times> Matrix" where
  "gauss_jordan_step n AB k =
     (let p = pivot_row n (fst AB) k;
          A = swap_rows p k (fst AB);
          B = swap_rows p k (snd AB)
      in (eliminate A k A, eliminate A k B))"

fun gauss_jordan :: "nat \<Rightarrow> nat list \<Rightarrow> Matrix \<times> Matrix \<Rightarrow> Matrix \<times> Matrix" where
  "gauss_jordan n [] AB = AB"
| "gauss_jordan n (k # ks) AB = gauss_jordan n ks (gauss_jordan_step n AB k)"

definition inverse_matrix :: "nat \<Rightarrow> Matrix \<Rightarrow> Matrix" where
  "inverse_matrix n A = snd (gauss_jordan n [0..<n] (A, Identity))"

subsection \<open>Quaternions and transformations\<close>

text \<open>
  The quaternion operations of Eigen that the residual uses: the product,
  \<^verbatim>\<open>inverse()\<close> (the conjugate over the squared norm, and zero for the zero quaternion) and
  \<^verbatim>\<open>normalized()\<close> (which leaves the zero quaternion as it is).
\<close>

definition quat_mult :: "Quaterniond \<Rightarrow> Quaterniond \<Rightarrow> Quaterniond" where
  "quat_mult a b =
     \<lparr>qw = qw a * qw b - qx a * qx b - qy a * qy b - qz a * qz b,
      qx = qw a * qx b + qx a * qw b + qy a * qz b - qz a * qy b,
      qy = qw a * qy b + qy a * qw b + qz a * qx b - qx a * qz b,
      qz = qw a * qz b + qz a * qw b + qx a * qy b - qy a * qx b\<rparr>"

definition quat_squaredNorm :: "Quaterniond \<Rightarrow> real" where
  "quat_squaredNorm a = qx a * qx a + qy a * qy a + qz a * qz a + qw a * qw a"

definition quat_inverse :: "Quaterniond \<Rightarrow> Quaterniond" where
  "quat_inverse a =
     (let n2 = quat_squaredNorm a in
      if n2 > 0 then \<lparr>qw = qw a / n2, qx = - qx a / n2, qy = - qy a / n2, qz = - qz a / n2\<rparr>
      else \<lparr>qw = 0, qx = 0, qy = 0, qz = 0\<rparr>)"

definition quat_normalized :: "Quaterniond \<Rightarrow> Quaterniond" where
  "quat_normalized a =
     (let z = quat_squaredNorm a in
      if z > 0 then \<lparr>qw = qw a / sqrt z, qx = qx a / sqrt z, qy = qy a / sqrt z,
                     qz = qz a / sqrt z\<rparr>
      else a)"

definition mat3_vec :: "Matrix3d \<Rightarrow> Vector3d \<Rightarrow> Vector3d" where
  "mat3_vec C v =
     (case C of ((c00, c01, c02), (c10, c11, c12), (c20, c21, c22)) \<Rightarrow>
      case v of (x, y, z) \<Rightarrow>
        (c00 * x + c01 * y + c02 * z, c10 * x + c11 * y + c12 * z, c20 * x + c21 * y + c22 * z))"

definition mat3_transpose :: "Matrix3d \<Rightarrow> Matrix3d" where
  "mat3_transpose C =
     (case C of ((c00, c01, c02), (c10, c11, c12), (c20, c21, c22)) \<Rightarrow>
        ((c00, c10, c20), (c01, c11, c21), (c02, c12, c22)))"

definition vec3_add :: "Vector3d \<Rightarrow> Vector3d \<Rightarrow> Vector3d" where
  "vec3_add u v = (case u of (a, b, c) \<Rightarrow> case v of (x, y, z) \<Rightarrow> (a + x, b + y, c + z))"

definition vec3_sub :: "Vector3d \<Rightarrow> Vector3d \<Rightarrow> Vector3d" where
  "vec3_sub u v = (case u of (a, b, c) \<Rightarrow> case v of (x, y, z) \<Rightarrow> (a - x, b - y, c - z))"

definition vec3_neg :: "Vector3d \<Rightarrow> Vector3d" where
  "vec3_neg v = (case v of (x, y, z) \<Rightarrow> (- x, - y, - z))"

text \<open>
  Modelled from the spec: \<^verbatim>\<open>okvis::kinematics::Transformation\<close> is a class of this
  repository defined in another file. The spec's pose is a translation with a unit
  quaternion, and its estimated relative transform is \<open>inverse(pose A) \<circ> pose B\<close>: the inverse
  of \<open>(r, q)\<close> is \<open>(- C\<^sup>T r, q\<^sup>-\<^sup>1)\<close> and the composition of \<open>(r\<^sub>1, q\<^sub>1)\<close> with \<open>(r\<^sub>2, q\<^sub>2)\<close> is
  \<open>(C\<^sub>1 r\<^sub>2 + r\<^sub>1, q\<^sub>1 q\<^sub>2)\<close>. The constructor from a translation and a quaternion stores both.
\<close>

definition T_inverse :: "Transformation \<Rightarrow> Transformation" where
  "T_inverse T =
     \<lparr>T_r = vec3_neg (mat3_vec (mat3_transpose (T_C T)) (T_r T)), T_q = quat_inverse (T_q T)\<rparr>"

definition T_mult :: "Transformation \<Rightarrow> Transformation \<Rightarrow> Transformation" where
  "T_mult T1 T2 =
     \<lparr>T_r = vec3_add (mat3_vec (T_C T1) (T_r T2)) (T_r T1), T_q = quat_mult (T_q T1) (T_q T2)\<rparr>"

subsection \<open>The error term\<close>

record RelativePoseError =
  T_AB_m :: Transformation
  information_m :: Matrix
  covariance_m :: Matrix
  squareRootInformation_m :: Matrix

text \<open>
  \<^verbatim>\<open>setInformation\<close> returns \<^verbatim>\<open>void\<close> and has no \<^verbatim>\<open>throw\<close>: it yields the object with the three
  matrices assigned. The \<^verbatim>\<open>info()\<close> of the decomposition is not read.
\<close>

definition setInformation :: "Matrix \<Rightarrow> RelativePoseError \<Rightarrow> RelativePoseError" where
  "setInformation information this =
     (let this1 = this\<lparr>information_m := information\<rparr>;
          this2 = this1\<lparr>covariance_m := inverse_matrix 6 information\<rparr>;
          lltOfInformation = LLT_compute 6 (information_m this2)
      in this2\<lparr>squareRootInformation_m := transposed (matrixL lltOfInformation)\<rparr>)"

text \<open>
  The two constructors. The members of the object under construction hold no value before
  they are assigned; \<open>unassigned\<close> stands for that object.
\<close>

definition unassigned :: "Transformation \<Rightarrow> RelativePoseError" where
  "unassigned T_AB =
     \<lparr>T_AB_m = T_AB, information_m = (\<lambda>i j. 0), covariance_m = (\<lambda>i j. 0),
      squareRootInformation_m = (\<lambda>i j. 0)\<rparr>"

definition RelativePoseError_information :: "Matrix \<Rightarrow> Transformation \<Rightarrow> RelativePoseError" where
  "RelativePoseError_information information T_AB = setInformation information (unassigned T_AB)"

definition RelativePoseError_variance ::
  "real \<Rightarrow> real \<Rightarrow> Transformation \<Rightarrow> RelativePoseError" where
  "RelativePoseError_variance translationVariance rotationVariance T_AB =
     (let information = (\<lambda>i j.
            if i < 3 \<and> j < 3 then Identity i j * 1 / translationVariance
            else if 3 \<le> i \<and> i < 6 \<and> 3 \<le> j \<and> j < 6 then Identity i j * 1 / rotationVariance
            else 0)
      in setInformation information (unassigned T_AB))"

text \<open>
  \<^verbatim>\<open>EvaluateWithMinimalJacobians\<close>: \<open>parameters b\<close> is the block of pose \<open>b\<close>, seven scalars
  (the position, then the quaternion as x, y, z, w). The result is the residual vector it
  writes; the call always returns \<^verbatim>\<open>true\<close>. The Jacobians, which are written only on request
  and which the residual does not depend on, are left out.
\<close>

definition poseOf :: "(nat \<Rightarrow> real) \<Rightarrow> Transformation" where
  "poseOf p =
     \<lparr>T_r = (p 0, p 1, p 2),
      T_q = quat_normalized \<lparr>qw = p 6, qx = p 3, qy = p 4, qz = p 5\<rparr>\<rparr>"

definition errorVector :: "Transformation \<Rightarrow> Transformation \<Rightarrow> Vector" where
  "errorVector T_AB_meas T_AB =
     (let d = vec3_sub (T_r T_AB_meas) (T_r T_AB);
          dq = quat_mult (T_q T_AB_meas) (quat_inverse (T_q T_AB))
      in case d of (d0, d1, d2) \<Rightarrow>
           (\<lambda>i. [d0, d1, d2, 2 * qx dq, 2 * qy dq, 2 * qz dq] ! i))"

definition EvaluateWithMinimalJacobians ::
  "RelativePoseError \<Rightarrow> (nat \<Rightarrow> nat \<Rightarrow> real) \<Rightarrow> bool \<times> Vector" where
  "EvaluateWithMinimalJacobians this parameters =
     (let T_WA = poseOf (parameters 0);
          T_WB = poseOf (parameters 1);
          T_AB = T_mult (T_inverse T_WA) T_WB;
          error = errorVector (T_AB_m this) T_AB
      in (True, mat_vec 6 (squareRootInformation_m this) error))"

definition Evaluate :: "RelativePoseError \<Rightarrow> (nat \<Rightarrow> nat \<Rightarrow> real) \<Rightarrow> bool \<times> Vector" where
  "Evaluate this parameters = EvaluateWithMinimalJacobians this parameters"

section \<open>Component\<close>

text \<open>
  The header of \<^verbatim>\<open>okvis::Component\<close> declares the members and \<^verbatim>\<open>load\<close>; the types of the IMU
  parameters, of the graph and of a multi-frame are declared elsewhere and stay parameters.
  \<open>fullGraph_m\<close> is the content of the graph that \<^verbatim>\<open>fullGraph_\<close> points to, and
  \<open>fullGraphOwn_m\<close> tells whether that graph is the one owned through \<^verbatim>\<open>fullGraphOwn_\<close>.
\<close>

type_synonym StateId = "64 word"

record ('imu, 'graph, 'frame) Component =
  imuParameters_m :: 'imu
  nCameraSystem_m :: NCameraSystem
  fullGraph_m :: 'graph
  fullGraphOwn_m :: bool
  multiFrames_m :: "StateId \<rightharpoonup> 'frame"

text \<open>
  What a location holds: the four persisted parts, each \<open>None\<close> when it cannot be
  deserialized. A store maps a path to what is there, if anything.
\<close>

record ('imu, 'graph, 'frame) Persisted =
  storedImuParameters :: "'imu option"
  storedNCameraSystem :: "NCameraSystem option"
  storedGraph :: "'graph option"
  storedMultiFrames :: "(StateId \<rightharpoonup> 'frame) option"

type_synonym ('imu, 'graph, 'frame) Store = "string \<rightharpoonup> ('imu, 'graph, 'frame) Persisted"

text \<open>
  Modelled from the spec: the header declares \<^verbatim>\<open>Component::load\<close> and does not hold
  its body, only its declaration (\<^verbatim>\<open>bool load(const std::string &path)\<close>, true on success). The spec:
  \<open>load\<close> deserializes IMU parameters, camera-rig calibration, graph content and frame data
  from the given location; either the container ends up fully replaced with the persisted
  state, or, on any failure, it is left exactly as it was before the call. The result is
  the returned flag and the container after the call.
\<close>

definition load ::
  "('imu, 'graph, 'frame) Store \<Rightarrow> string \<Rightarrow> ('imu, 'graph, 'frame) Component
    \<Rightarrow> bool \<times> ('imu, 'graph, 'frame) Component" where
  "load store path this =
     (case store path of
        None \<Rightarrow> (False, this)
      | Some stored \<Rightarrow>
          (case storedImuParameters stored of
             None \<Rightarrow> (False, this)
           | Some imuParameters \<Rightarrow>
          (case storedNCameraSystem stored of
             None \<Rightarrow> (False, this)
           | Some nCameraSystem \<Rightarrow>
          (case storedGraph stored of
             None \<Rightarrow> (False, this)
           | Some graph \<Rightarrow>
          (case storedMultiFrames stored of
             None \<Rightarrow> (False, this)
           | Some multiFrames \<Rightarrow>
               (True, this\<lparr>imuParameters_m := imuParameters,
                             nCameraSystem_m := nCameraSystem,
                             fullGraph_m := graph,
                             multiFrames_m := multiFrames\<rparr>))))))"

section \<open>Specifications and examples\<close>

subsection \<open>What the adapter's constructor is measured against\<close>

text \<open>
  \<open>missing\<close>: keypoint \<open>k\<close> of camera \<open>im\<close> is matched to a landmark id other than the
  sentinel 0 that the landmark table does not hold. \<open>accepted\<close>: the keypoint passes the
  three landmark checks (an association exists, its id is not 0, the landmark is in the table
  with \<open>\<bar>w\<bar>\<close> at least \<open>1e-8\<close>).
\<close>

definition missing :: "Points \<Rightarrow> Matches \<Rightarrow> MultiFrame \<Rightarrow> nat \<Rightarrow> nat \<Rightarrow> bool" where
  "missing points matches frameB im k =
     (case matches (frameId frameB, im, k) of
        None \<Rightarrow> False
      | Some lmId \<Rightarrow> lmId \<noteq> 0 \<and> points lmId = None)"

definition accepted :: "Points \<Rightarrow> Matches \<Rightarrow> MultiFrame \<Rightarrow> nat \<Rightarrow> nat \<Rightarrow> bool" where
  "accepted points matches frameB im k =
     (case matches (frameId frameB, im, k) of
        None \<Rightarrow> False
      | Some lmId \<Rightarrow>
          lmId \<noteq> 0 \<and>
          (case points lmId of None \<Rightarrow> False | Some hp \<Rightarrow> 1 / 10 ^ 8 \<le> \<bar>hp3 hp\<bar>))"

text \<open>
  What an accepted keypoint \<open>p = (im, k)\<close> appends to the five correspondence arrays, and
  the adapter after the keypoints \<open>ps\<close> and the cameras \<open>ims\<close> have been appended.
\<close>

definition pointOf :: "Points \<Rightarrow> Matches \<Rightarrow> MultiFrame \<Rightarrow> nat \<times> nat \<Rightarrow> Vector3d" where
  "pointOf points matches frameB p =
     head3_div (the (points (the (matches (frameId frameB, fst p, snd p)))))"

definition sigmaOf :: "MultiFrame \<Rightarrow> nat \<times> nat \<Rightarrow> real" where
  "sigmaOf frameB p =
     sqrt 2 * (0.8 * getKeypointSize frameB (fst p) (snd p) / 12)
            * (0.8 * getKeypointSize frameB (fst p) (snd p) / 12)
      / (focalLengthU frameB (fst p) * focalLengthU frameB (fst p))"

definition bearingOf :: "MultiFrame \<Rightarrow> nat \<times> nat \<Rightarrow> Vector3d" where
  "bearingOf frameB p =
     normalize (if \<not> fst (getBackProjection frameB (fst p) (snd p)) then (1, 0, 0)
                else snd (getBackProjection frameB (fst p) (snd p)))"

definition pushPairs ::
  "Points \<Rightarrow> Matches \<Rightarrow> MultiFrame \<Rightarrow> (nat \<times> nat) list \<Rightarrow> Adapter \<Rightarrow> Adapter" where
  "pushPairs points matches frameB ps a =
     a\<lparr>points_m := points_m a @ map (pointOf points matches frameB) ps,
       bearingVectors_m := bearingVectors_m a @ map (bearingOf frameB) ps,
       sigmaAngles_m := sigmaAngles_m a @ map (sigmaOf frameB) ps,
       camIndices_m := camIndices_m a @ map fst ps,
       keypointIndices_m := keypointIndices_m a @ map snd ps\<rparr>"

text \<open>
  The accepted keypoints in the order of the two loops, and the adapter they assemble.
\<close>

definition pairsOf :: "Points \<Rightarrow> Matches \<Rightarrow> MultiFrame \<Rightarrow> nat list \<Rightarrow> (nat \<times> nat) list" where
  "pairsOf points matches frameB ims =
     concat (map (\<lambda>im. map (Pair im)
        (filter (accepted points matches frameB im) [0..<numKeypoints frameB im])) ims)"

definition pushCams :: "MultiFrame \<Rightarrow> nat list \<Rightarrow> Adapter \<Rightarrow> Adapter" where
  "pushCams frameB ims a =
     a\<lparr>camOffsets_m := camOffsets_m a @ map (\<lambda>im. T_r (T_SC frameB im)) ims,
       camRotations_m := camRotations_m a @ map (\<lambda>im. T_C (T_SC frameB im)) ims\<rparr>"

definition assembled :: "Points \<Rightarrow> Matches \<Rightarrow> NCameraSystem \<Rightarrow> MultiFrame \<Rightarrow> Adapter" where
  "assembled points matches nCameraSystem frameB =
     pushPairs points matches frameB
       (pairsOf points matches frameB [0..<numCameras nCameraSystem])
       (pushCams frameB [0..<numCameras nCameraSystem] emptyAdapter)"

text \<open>
  The two preconditions on the inputs: all cameras of the rig share one distortion family,
  and every matched id other than the sentinel is in the landmark table.
\<close>

definition singleFamily :: "NCameraSystem \<Rightarrow> bool" where
  "singleFamily nCameraSystem =
     (\<forall>i<numCameras nCameraSystem. \<forall>j<numCameras nCameraSystem.
        distortionType nCameraSystem i = distortionType nCameraSystem j)"

definition noMissing :: "Points \<Rightarrow> Matches \<Rightarrow> NCameraSystem \<Rightarrow> MultiFrame \<Rightarrow> bool" where
  "noMissing points matches nCameraSystem frameB =
     (\<forall>im<numCameras nCameraSystem. \<forall>k<numKeypoints frameB im.
        \<not> missing points matches frameB im k)"

text \<open>
  Modelled from the spec: \<^verbatim>\<open>MultiFrame::getBackProjection\<close> is defined in another file of
  the repository. In the spec the bearing vector comes from the back-projection of the pixel
  location and is a 3D direction from the camera toward the observed point. A direction is
  not the zero vector: \<open>backProjectsDirections\<close> says that every back-projection of the frame
  that reports success, for a keypoint of a camera of the rig, wrote a vector other than
  zero. What a back-projection that reports failure wrote is left open.
\<close>

definition backProjectsDirections :: "NCameraSystem \<Rightarrow> MultiFrame \<Rightarrow> bool" where
  "backProjectsDirections nCameraSystem frameB =
     (\<forall>im<numCameras nCameraSystem. \<forall>k<numKeypoints frameB im.
        fst (getBackProjection frameB im k) \<longrightarrow>
        snd (getBackProjection frameB im k) \<noteq> (0, 0, 0))"

subsection \<open>A frame with five keypoints\<close>

text \<open>
  One equidistant camera with five keypoints: keypoint 0 sees landmark 1 and has no
  back-projection, keypoint 1 sees landmark 2, which is at infinity, keypoint 2 sees
  landmark 3, keypoint 3 carries the sentinel and keypoint 4 is unmatched. Variants: a rig
  of two cameras of different families, and an association to an id that is not in the table.
\<close>

definition exPoints :: Points where
  "exPoints = [1 \<mapsto> (2, 4, 6, 2), 2 \<mapsto> (1, 1, 1, 0), 3 \<mapsto> (0, 0, 4, 1)]"

definition exMatches :: Matches where
  "exMatches = [(7, 0, 0) \<mapsto> 1, (7, 0, 1) \<mapsto> 2, (7, 0, 2) \<mapsto> 3, (7, 0, 3) \<mapsto> 0]"

definition exRig :: NCameraSystem where
  "exRig = \<lparr>numCameras = 1, distortionType = (\<lambda>i. Equidistant)\<rparr>"

definition exIdentity :: Transformation where
  "exIdentity = \<lparr>T_r = (0, 0, 0), T_q = \<lparr>qw = 1, qx = 0, qy = 0, qz = 0\<rparr>\<rparr>"

definition exFrame :: MultiFrame where
  "exFrame =
     \<lparr>frameId = 7, T_SC = (\<lambda>im. exIdentity), numKeypoints = (\<lambda>im. 5),
      focalLengthU = (\<lambda>im. 2), getKeypointSize = (\<lambda>im k. 15),
      getBackProjection = (\<lambda>im k. if k = 0 then (False, (0, 0, 0)) else (True, (0, 0, 2)))\<rparr>"

definition exAdapter :: Adapter where
  "exAdapter =
     \<lparr>camOffsets_m = [(0, 0, 0)], camRotations_m = [((1, 0, 0), (0, 1, 0), (0, 0, 1))],
      points_m = [(1, 2, 3), (0, 0, 4)], bearingVectors_m = [(1, 0, 0), (0, 0, 1)],
      sigmaAngles_m = [sqrt 2 / 4, sqrt 2 / 4], camIndices_m = [0, 0],
      keypointIndices_m = [0, 2]\<rparr>"

definition exMixedRig :: NCameraSystem where
  "exMixedRig = \<lparr>numCameras = 2, distortionType = (\<lambda>i. if i = 0 then Equidistant else RadialTangential)\<rparr>"

definition exMissingMatches :: Matches where
  "exMissingMatches = [(7, 0, 0) \<mapsto> 1, (7, 0, 1) \<mapsto> 9]"

subsection \<open>What the matrices of the error term are measured against\<close>

text \<open>
  A symmetric positive-definite matrix of dimension \<open>n\<close>: symmetric, with a positive
  quadratic form at every vector that is not zero.
\<close>

definition symmetric :: "nat \<Rightarrow> Matrix \<Rightarrow> bool" where
  "symmetric n M = (\<forall>i<n. \<forall>j<n. M i j = M j i)"

definition quadForm :: "nat \<Rightarrow> Matrix \<Rightarrow> Vector \<Rightarrow> real" where
  "quadForm n M x = (\<Sum>i<n. \<Sum>j<n. x i * M i j * x j)"

definition positiveDefinite :: "nat \<Rightarrow> Matrix \<Rightarrow> bool" where
  "positiveDefinite n M =
     (symmetric n M \<and> (\<forall>x. (\<exists>i<n. x i \<noteq> 0) \<longrightarrow> 0 < quadForm n M x))"

text \<open>
  The loop invariant of the decomposition of \<open>M\<close> before pass \<open>k\<close>: the columns to the left
  of \<open>k\<close> hold the lower factor (on and below the diagonal), with positive diagonal, and
  every other coefficient is still that of \<open>M\<close>.
\<close>

definition llt_inv :: "nat \<Rightarrow> Matrix \<Rightarrow> nat \<Rightarrow> Matrix \<Rightarrow> bool" where
  "llt_inv n M k m =
     ((\<forall>i<n. \<forall>j<k. j \<le> i \<longrightarrow> (\<Sum>l\<le>j. m i l * m j l) = M i j) \<and>
      (\<forall>j<k. 0 < m j j) \<and>
      (\<forall>i j. \<not> (j < k \<and> j \<le> i \<and> i < n) \<longrightarrow> m i j = M i j))"

text \<open>
  A matrix with no kernel, and the loop invariant of the elimination of \<open>M\<close> before column
  \<open>k\<close>: the left matrix has no kernel, is the accumulated matrix times \<open>M\<close>, and its first
  \<open>k\<close> columns are those of the identity.
\<close>

definition nonsingular :: "nat \<Rightarrow> Matrix \<Rightarrow> bool" where
  "nonsingular n A = (\<forall>x. (\<forall>i<n. (\<Sum>j<n. A i j * x j) = 0) \<longrightarrow> (\<forall>j<n. x j = 0))"

definition gj_inv :: "nat \<Rightarrow> Matrix \<Rightarrow> nat \<Rightarrow> Matrix \<times> Matrix \<Rightarrow> bool" where
  "gj_inv n M k AB =
     (nonsingular n (fst AB) \<and>
      (\<forall>i<n. \<forall>j<n. (\<Sum>l<n. snd AB i l * M l j) = fst AB i j) \<and>
      (\<forall>i<n. \<forall>j<k. fst AB i j = (if i = j then 1 else 0)))"

text \<open>
  The zero matrix, which is not positive definite, and two parameter blocks that both hold
  the identity pose.
\<close>

definition exZeroMatrix :: Matrix where
  "exZeroMatrix = (\<lambda>i j. 0)"

definition exParameters :: "nat \<Rightarrow> nat \<Rightarrow> real" where
  "exParameters = (\<lambda>b i. if i = 6 then 1 else 0)"

text \<open>
  The estimated relative transform of the residual, \<^verbatim>\<open>T_WA.inverse() * T_WB\<close>, the rotation
  difference \<^verbatim>\<open>T_AB_.q() * T_AB.q().inverse()\<close> to the measurement, a quaternion of norm one,
  and the quaternion a parameter block holds before it is normalized.
\<close>

definition Identity3 :: Matrix3d where
  "Identity3 = ((1, 0, 0), (0, 1, 0), (0, 0, 1))"

definition estimatedTransform :: "(nat \<Rightarrow> nat \<Rightarrow> real) \<Rightarrow> Transformation" where
  "estimatedTransform parameters =
     T_mult (T_inverse (poseOf (parameters 0))) (poseOf (parameters 1))"

definition rotationDifference :: "Transformation \<Rightarrow> Transformation \<Rightarrow> Quaterniond" where
  "rotationDifference T_meas T_est = quat_mult (T_q T_meas) (quat_inverse (T_q T_est))"

definition unitQuaternion :: "Quaterniond \<Rightarrow> bool" where
  "unitQuaternion a = (quat_squaredNorm a = 1)"

definition quaternionOf :: "(nat \<Rightarrow> real) \<Rightarrow> Quaterniond" where
  "quaternionOf p = \<lparr>qw = p 6, qx = p 3, qy = p 4, qz = p 5\<rparr>"

text \<open>
  What a pose means. A transformation \<open>T_AB\<close> takes the coordinates of a point in frame
  \<open>B\<close> to its coordinates in frame \<open>A\<close>: it rotates them by \<^verbatim>\<open>C()\<close> and adds \<^verbatim>\<open>r()\<close>. A block
  of seven scalars stands for the pose whose position is its first three scalars and whose
  orientation is the quaternion of the other four (x, y, z, w), renormalized. The measured
  \<open>T_AB\<close> is \<open>inverse(pose A)\<close> composed with \<open>pose B\<close> exactly when, on every point, pose A
  after \<open>T_AB\<close> is pose B.
\<close>

definition transformPoint :: "Transformation \<Rightarrow> Vector3d \<Rightarrow> Vector3d" where
  "transformPoint T v = vec3_add (mat3_vec (T_C T) v) (T_r T)"

definition ambientPose :: "(nat \<Rightarrow> real) \<Rightarrow> Transformation" where
  "ambientPose p = \<lparr>T_r = (p 0, p 1, p 2), T_q = quat_normalized (quaternionOf p)\<rparr>"

text \<open>
  The rotation matrix of a quaternion in homogeneous form, which is \<open>toRotationMatrix\<close> on
  the quaternions of norm one and is multiplicative on all quaternions.
\<close>

definition homogeneousRotation :: "Quaterniond \<Rightarrow> Matrix3d" where
  "homogeneousRotation p =
     (let w = qw p; x = qx p; y = qy p; z = qz p in
      ((w * w + x * x - y * y - z * z, 2 * (x * y - w * z), 2 * (x * z + w * y)),
       (2 * (x * y + w * z), w * w - x * x + y * y - z * z, 2 * (y * z - w * x)),
       (2 * (x * z - w * y), 2 * (y * z + w * x), w * w - x * x - y * y + z * z)))"

text \<open>
  Two parameter blocks whose quaternions are not normalized: pose A is half a turn about z
  at \<open>(1, 2, 3)\<close>, pose B is half a turn about x at \<open>(4, 6, 8)\<close>. The transform from B to
  A is then half a turn about y with translation \<open>(-3, -4, 5)\<close>.
\<close>

definition exPoses :: "nat \<Rightarrow> nat \<Rightarrow> real" where
  "exPoses = (\<lambda>b i. if b = 0 then [1, 2, 3, 0, 0, 2, 0] ! i else [4, 6, 8, 2, 0, 0, 0] ! i)"

definition exMeasured :: Transformation where
  "exMeasured = \<lparr>T_r = (- 3, - 4, 5), T_q = \<lparr>qw = 0, qx = 0, qy = 1, qz = 0\<rparr>\<rparr>"

subsection \<open>A component and a store\<close>

text \<open>
  A component over natural numbers as IMU parameters, graph and frames, and a store with a
  complete session at one path and a session whose graph cannot be read at another.
\<close>

definition exComponent :: "(nat, nat, nat) Component" where
  "exComponent =
     \<lparr>imuParameters_m = 1, nCameraSystem_m = exRig, fullGraph_m = 2, fullGraphOwn_m = True,
      multiFrames_m = Map.empty\<rparr>"

definition exStore :: "(nat, nat, nat) Store" where
  "exStore =
     [''session'' \<mapsto>
        \<lparr>storedImuParameters = Some 5, storedNCameraSystem = Some exMixedRig,
         storedGraph = Some 6, storedMultiFrames = Some [3 \<mapsto> 7]\<rparr>,
      ''broken'' \<mapsto>
        \<lparr>storedImuParameters = Some 5, storedNCameraSystem = Some exMixedRig,
         storedGraph = None, storedMultiFrames = Some [3 \<mapsto> 7]\<rparr>]"

section \<open>Properties of the LoopclosureNoncentralAbsoluteAdapter\<close>

subsection \<open>One keypoint, one camera, the whole construction\<close>

lemma pushPairs_Nil: "pushPairs points matches frameB [] a = a"
  by (simp add: pushPairs_def)

lemma pushPairs_append:
  "pushPairs points matches frameB qs (pushPairs points matches frameB ps a) =
   pushPairs points matches frameB (ps @ qs) a"
  by (simp add: pushPairs_def)

lemma addKeypoint_missing:
  "missing points matches frameB im k \<Longrightarrow>
   addKeypoint points matches frameB fu im k a = Inl (out_of_range, a)"
  by (auto simp: missing_def addKeypoint_def split: option.splits)

lemma addKeypoint_accepted:
  "accepted points matches frameB im k \<Longrightarrow>
   addKeypoint points matches frameB (focalLengthU frameB im) im k a =
     Inr (pushPairs points matches frameB [(im, k)] a)"
  by (auto simp: accepted_def addKeypoint_def pushPairs_def pointOf_def sigmaOf_def bearingOf_def
      Let_def split: option.splits)

lemma addKeypoint_skipped:
  "\<not> missing points matches frameB im k \<Longrightarrow> \<not> accepted points matches frameB im k \<Longrightarrow>
   addKeypoint points matches frameB fu im k a = Inr a"
  by (auto simp: missing_def accepted_def addKeypoint_def split: option.splits)

lemma keypointLoop_ok:
  "\<forall>k\<in>set ks. \<not> missing points matches frameB im k \<Longrightarrow>
   keypointLoop points matches frameB (focalLengthU frameB im) im ks a =
     Inr (pushPairs points matches frameB
            (map (Pair im) (filter (accepted points matches frameB im) ks)) a)"
proof (induction ks arbitrary: a)
  case Nil
  show ?case by (simp add: pushPairs_Nil)
next
  case (Cons k ks)
  show ?case
  proof (cases "accepted points matches frameB im k")
    case True
    then show ?thesis
      using Cons by (simp add: addKeypoint_accepted pushPairs_append)
  next
    case False
    then show ?thesis
      using Cons by (simp add: addKeypoint_skipped)
  qed
qed

lemma keypointLoop_missing:
  "\<exists>k\<in>set ks. missing points matches frameB im k \<Longrightarrow>
   \<exists>a'. keypointLoop points matches frameB (focalLengthU frameB im) im ks a = Inl (out_of_range, a')"
proof (induction ks arbitrary: a)
  case Nil
  then show ?case by simp
next
  case (Cons k ks)
  show ?case
  proof (cases "missing points matches frameB im k")
    case True
    then show ?thesis by (simp add: addKeypoint_missing)
  next
    case False
    with Cons.prems have rest: "\<exists>k\<in>set ks. missing points matches frameB im k" by simp
    show ?thesis
    proof (cases "accepted points matches frameB im k")
      case True
      then show ?thesis using Cons.IH [OF rest] by (simp add: addKeypoint_accepted)
    next
      case acc: False
      then show ?thesis using False Cons.IH [OF rest] by (simp add: addKeypoint_skipped)
    qed
  qed
qed

lemma pairsOf_Nil: "pairsOf points matches frameB [] = []"
  by (simp add: pairsOf_def)

lemma pairsOf_Cons:
  "pairsOf points matches frameB (im # ims) =
     map (Pair im) (filter (accepted points matches frameB im) [0..<numKeypoints frameB im])
     @ pairsOf points matches frameB ims"
  by (simp add: pairsOf_def)

lemma pushCams_Nil: "pushCams frameB [] a = a"
  by (simp add: pushCams_def)

lemma pushCams_Cons:
  "pushCams frameB ims (pushCams frameB [im] a) = pushCams frameB (im # ims) a"
  by (simp add: pushCams_def)

lemma pushCams_pushPairs:
  "pushCams frameB ims (pushPairs points matches frameB ps a) =
   pushPairs points matches frameB ps (pushCams frameB ims a)"
  by (simp add: pushCams_def pushPairs_def)

lemma focalLength_supported:
  "dt \<noteq> NoDistortion \<Longrightarrow> focalLength dt frameB im = Inr (focalLengthU frameB im)"
  by (cases dt) (simp_all add: focalLength_def)

lemma addCamera_ok:
  assumes "dt \<noteq> NoDistortion"
    and "\<forall>k<numKeypoints frameB im. \<not> missing points matches frameB im k"
  shows "addCamera points matches dt frameB im a =
     Inr (pushPairs points matches frameB (pairsOf points matches frameB [im])
            (pushCams frameB [im] a))"
proof -
  have "\<forall>k\<in>set [0..<numKeypoints frameB im]. \<not> missing points matches frameB im k"
    using assms(2) by simp
  from keypointLoop_ok [OF this] show ?thesis
    using assms(1)
    by (simp add: addCamera_def Let_def focalLength_supported pairsOf_def pushCams_def)
qed

lemma addCamera_unsupported:
  "addCamera points matches NoDistortion frameB im a =
     Inl (Exception ''Unsupported distortion type'', pushCams frameB [im] a)"
  by (simp add: addCamera_def Let_def focalLength_def pushCams_def)

lemma addCamera_missing:
  assumes "dt \<noteq> NoDistortion"
    and "\<exists>k<numKeypoints frameB im. missing points matches frameB im k"
  shows "\<exists>a'. addCamera points matches dt frameB im a = Inl (out_of_range, a')"
proof -
  have "\<exists>k\<in>set [0..<numKeypoints frameB im]. missing points matches frameB im k"
    using assms(2) by auto
  from keypointLoop_missing [OF this] show ?thesis
    using assms(1) by (simp add: addCamera_def Let_def focalLength_supported)
qed

lemma cameraLoop_ok:
  assumes "dt \<noteq> NoDistortion"
    and "\<forall>im\<in>set ims. \<forall>k<numKeypoints frameB im. \<not> missing points matches frameB im k"
  shows "cameraLoop points matches dt frameB ims a =
     Inr (pushPairs points matches frameB (pairsOf points matches frameB ims)
            (pushCams frameB ims a))"
  using assms(2)
proof (induction ims arbitrary: a)
  case Nil
  show ?case by (simp add: pairsOf_Nil pushCams_Nil pushPairs_Nil)
next
  case (Cons im ims)
  have here: "\<forall>k<numKeypoints frameB im. \<not> missing points matches frameB im k"
    using Cons.prems by simp
  have rest: "\<forall>im\<in>set ims. \<forall>k<numKeypoints frameB im. \<not> missing points matches frameB im k"
    using Cons.prems by simp
  show ?case
    by (simp add: addCamera_ok [OF assms(1) here] Cons.IH [OF rest] pushCams_pushPairs
        pushCams_Cons pushPairs_append pairsOf_Cons [of _ _ _ im ims] pairsOf_Cons [of _ _ _ im "[]"]
        pairsOf_Nil)
qed

lemma cameraLoop_missing:
  assumes "dt \<noteq> NoDistortion"
    and "\<exists>im\<in>set ims. \<exists>k<numKeypoints frameB im. missing points matches frameB im k"
  shows "\<exists>a'. cameraLoop points matches dt frameB ims a = Inl (out_of_range, a')"
  using assms(2)
proof (induction ims arbitrary: a)
  case Nil
  then show ?case by simp
next
  case (Cons im ims)
  show ?case
  proof (cases "\<exists>k<numKeypoints frameB im. missing points matches frameB im k")
    case True
    from addCamera_missing [OF assms(1) True, of a]
    obtain a' where "addCamera points matches dt frameB im a = Inl (out_of_range, a')" by blast
    then show ?thesis by simp
  next
    case False
    then have here: "\<forall>k<numKeypoints frameB im. \<not> missing points matches frameB im k"
      by simp
    from False Cons.prems
    have rest: "\<exists>im\<in>set ims. \<exists>k<numKeypoints frameB im. missing points matches frameB im k"
      by auto
    show ?thesis
      using Cons.IH [OF rest] by (simp add: addCamera_ok [OF assms(1) here])
  qed
qed

lemma cameraLoop_unsupported:
  "cameraLoop points matches NoDistortion frameB (im # ims) a =
     Inl (Exception ''Unsupported distortion type'', pushCams frameB [im] a)"
  by (simp add: addCamera_unsupported)

lemma checkDistortionTypes_ok:
  "\<forall>i\<in>set is. distortionType nCameraSystem i = dt \<Longrightarrow>
   checkDistortionTypes nCameraSystem dt is = Inr ()"
  by (induction "is") auto

lemma checkDistortionTypes_mixed:
  "\<exists>i\<in>set is. distortionType nCameraSystem i \<noteq> dt \<Longrightarrow>
   checkDistortionTypes nCameraSystem dt is =
     Inl (Exception ''mixed frame types are not supported yet'')"
  by (induction "is") auto

lemma constructor_mixed:
  assumes "\<not> singleFamily nCameraSystem"
  shows "LoopclosureNoncentralAbsoluteAdapter points matches nCameraSystem frameB =
     Inl (Exception ''mixed frame types are not supported yet'', emptyAdapter)"
proof -
  from assms obtain i j where ij: "i < numCameras nCameraSystem" "j < numCameras nCameraSystem"
    "distortionType nCameraSystem i \<noteq> distortionType nCameraSystem j"
    by (auto simp: singleFamily_def)
  then have "\<exists>l<numCameras nCameraSystem.
      distortionType nCameraSystem l \<noteq> distortionType nCameraSystem 0"
    by metis
  then obtain l where l: "l < numCameras nCameraSystem"
    "distortionType nCameraSystem l \<noteq> distortionType nCameraSystem 0" by blast
  then have "1 \<le> l" by (cases l) auto
  with l have "\<exists>i\<in>set [1..<numCameras nCameraSystem].
      distortionType nCameraSystem i \<noteq> distortionType nCameraSystem 0"
    by auto
  from checkDistortionTypes_mixed [OF this] show ?thesis
    by (simp add: LoopclosureNoncentralAbsoluteAdapter_def)
qed

lemma constructor_check_ok:
  assumes "singleFamily nCameraSystem"
  shows "LoopclosureNoncentralAbsoluteAdapter points matches nCameraSystem frameB =
     cameraLoop points matches (distortionType nCameraSystem 0) frameB
       [0..<numCameras nCameraSystem] emptyAdapter"
proof -
  have "\<forall>i\<in>set [1..<numCameras nCameraSystem].
      distortionType nCameraSystem i = distortionType nCameraSystem 0"
    using assms by (auto simp: singleFamily_def)
  from checkDistortionTypes_ok [OF this] show ?thesis
    by (simp add: LoopclosureNoncentralAbsoluteAdapter_def)
qed

lemma constructor_ok:
  assumes "singleFamily nCameraSystem"
    and "distortionType nCameraSystem 0 \<noteq> NoDistortion \<or> numCameras nCameraSystem = 0"
    and "noMissing points matches nCameraSystem frameB"
  shows "LoopclosureNoncentralAbsoluteAdapter points matches nCameraSystem frameB =
     Inr (assembled points matches nCameraSystem frameB)"
proof (cases "numCameras nCameraSystem = 0")
  case True
  then show ?thesis
    by (simp add: constructor_check_ok [OF assms(1)] assembled_def pairsOf_Nil pushCams_Nil
        pushPairs_Nil)
next
  case False
  with assms(2) have dt: "distortionType nCameraSystem 0 \<noteq> NoDistortion" by simp
  have "\<forall>im\<in>set [0..<numCameras nCameraSystem]. \<forall>k<numKeypoints frameB im.
      \<not> missing points matches frameB im k"
    using assms(3) by (simp add: noMissing_def)
  from cameraLoop_ok [OF dt this] show ?thesis
    by (simp add: constructor_check_ok [OF assms(1)] assembled_def)
qed

lemma constructor_Inr:
  assumes "LoopclosureNoncentralAbsoluteAdapter points matches nCameraSystem frameB = Inr a"
  shows "singleFamily nCameraSystem"
    and "distortionType nCameraSystem 0 \<noteq> NoDistortion \<or> numCameras nCameraSystem = 0"
    and "noMissing points matches nCameraSystem frameB"
    and "a = assembled points matches nCameraSystem frameB"
proof -
  show sf: "singleFamily nCameraSystem"
    using assms constructor_mixed [of nCameraSystem points matches frameB] by auto
  note loop = constructor_check_ok [OF sf, of points matches frameB]
  show dt: "distortionType nCameraSystem 0 \<noteq> NoDistortion \<or> numCameras nCameraSystem = 0"
  proof (rule ccontr)
    assume "\<not> ?thesis"
    then have "distortionType nCameraSystem 0 = NoDistortion" "0 < numCameras nCameraSystem"
      by auto
    then show False
      using assms loop by (simp add: upt_conv_Cons addCamera_unsupported)
  qed
  show nm: "noMissing points matches nCameraSystem frameB"
  proof (rule ccontr)
    assume neg: "\<not> ?thesis"
    then have ex: "\<exists>im\<in>set [0..<numCameras nCameraSystem]. \<exists>k<numKeypoints frameB im.
        missing points matches frameB im k"
      by (auto simp: noMissing_def)
    then have "0 < numCameras nCameraSystem" by auto
    with dt have "distortionType nCameraSystem 0 \<noteq> NoDistortion" by simp
    from cameraLoop_missing [OF this ex, of emptyAdapter] show False
      using assms loop by auto
  qed
  show "a = assembled points matches nCameraSystem frameB"
    using constructor_ok [OF sf dt nm] assms by simp
qed

subsection \<open>The example, and the assembled arrays\<close>

lemma upt5: "[0..<5] = [0, 1, 2, 3, 4]"
  by (simp add: upt_rec)

lemma example_constructed:
  "LoopclosureNoncentralAbsoluteAdapter exPoints exMatches exRig exFrame = Inr exAdapter"
  by (simp add: LoopclosureNoncentralAbsoluteAdapter_def exRig_def exFrame_def exPoints_def
      exMatches_def exAdapter_def exIdentity_def addCamera_def focalLength_def addKeypoint_def
      emptyAdapter_def T_C_def toRotationMatrix_def hp3_def head3_div_def normalize_def
      squaredNorm_def upt5 Let_def)

lemma assembled_fields:
  "points_m (assembled p m rig f) = map (pointOf p m f) (pairsOf p m f [0..<numCameras rig])"
  "bearingVectors_m (assembled p m rig f) = map (bearingOf f) (pairsOf p m f [0..<numCameras rig])"
  "sigmaAngles_m (assembled p m rig f) = map (sigmaOf f) (pairsOf p m f [0..<numCameras rig])"
  "camIndices_m (assembled p m rig f) = map fst (pairsOf p m f [0..<numCameras rig])"
  "keypointIndices_m (assembled p m rig f) = map snd (pairsOf p m f [0..<numCameras rig])"
  "camOffsets_m (assembled p m rig f) = map (\<lambda>im. T_r (T_SC f im)) [0..<numCameras rig]"
  "camRotations_m (assembled p m rig f) = map (\<lambda>im. T_C (T_SC f im)) [0..<numCameras rig]"
  by (simp_all add: assembled_def pushPairs_def pushCams_def emptyAdapter_def)

lemma set_pairsOf:
  "set (pairsOf p m f ims) =
     {(im, k). im \<in> set ims \<and> k < numKeypoints f im \<and> accepted p m f im k}"
  by (auto simp: pairsOf_def)

lemma distinct_pairsOf: "distinct ims \<Longrightarrow> distinct (pairsOf p m f ims)"
proof (induction ims)
  case Nil
  show ?case by (simp add: pairsOf_Nil)
next
  case (Cons im ims)
  have "distinct (map (Pair im) (filter (accepted p m f im) [0..<numKeypoints f im]))"
    by (simp add: distinct_map inj_on_def)
  moreover have "set (map (Pair im) (filter (accepted p m f im) [0..<numKeypoints f im]))
      \<inter> set (pairsOf p m f ims) = {}"
    using Cons.prems by (auto simp: set_pairsOf)
  ultimately show ?case
    using Cons by (simp add: pairsOf_Cons)
qed

lemma accepted_iff:
  "accepted p m f im k \<longleftrightarrow>
     (\<exists>lmId hp. m (frameId f, im, k) = Some lmId \<and> lmId \<noteq> 0 \<and> p lmId = Some hp \<and>
        1 / 10 ^ 8 \<le> \<bar>hp3 hp\<bar>)"
  by (auto simp: accepted_def split: option.splits)

lemma length_pairsOf:
  "length (pairsOf p m f [0..<n]) =
     card {(im, k). im < n \<and> k < numKeypoints f im \<and>
        (\<exists>lmId hp. m (frameId f, im, k) = Some lmId \<and> lmId \<noteq> 0 \<and> p lmId = Some hp \<and>
           1 / 10 ^ 8 \<le> \<bar>hp3 hp\<bar>)}"
proof -
  have "length (pairsOf p m f [0..<n]) = card (set (pairsOf p m f [0..<n]))"
    by (simp add: distinct_card distinct_pairsOf)
  also have "set (pairsOf p m f [0..<n]) =
      {(im, k). im < n \<and> k < numKeypoints f im \<and>
        (\<exists>lmId hp. m (frameId f, im, k) = Some lmId \<and> lmId \<noteq> 0 \<and> p lmId = Some hp \<and>
           1 / 10 ^ 8 \<le> \<bar>hp3 hp\<bar>)}"
    by (simp add: set_pairsOf accepted_iff)
  finally show ?thesis .
qed

lemma pairsOf_nth:
  assumes "i < length (pairsOf p m f [0..<n])"
  shows "fst (pairsOf p m f [0..<n] ! i) < n"
    and "snd (pairsOf p m f [0..<n] ! i) < numKeypoints f (fst (pairsOf p m f [0..<n] ! i))"
    and "accepted p m f (fst (pairsOf p m f [0..<n] ! i)) (snd (pairsOf p m f [0..<n] ! i))"
proof -
  have "pairsOf p m f [0..<n] ! i \<in> set (pairsOf p m f [0..<n])"
    using assms by simp
  then have "pairsOf p m f [0..<n] ! i \<in>
      {(im, k). im \<in> set [0..<n] \<and> k < numKeypoints f im \<and> accepted p m f im k}"
    by (simp only: set_pairsOf)
  then show "fst (pairsOf p m f [0..<n] ! i) < n"
    and "snd (pairsOf p m f [0..<n] ! i) < numKeypoints f (fst (pairsOf p m f [0..<n] ! i))"
    and "accepted p m f (fst (pairsOf p m f [0..<n] ! i)) (snd (pairsOf p m f [0..<n] ! i))"
    by (auto simp: case_prod_beta)
qed

subsection \<open>The claims about the adapter\<close>

text \<open>
  C3. Whenever the constructor returns an adapter, \<open>getNumberCorrespondences\<close> is the
  number of pairs (camera, keypoint) of the query frame, the camera below the rig's number of
  cameras and the keypoint below that camera's number of keypoints, whose association
  exists, is not the sentinel 0 and names a landmark of the table with \<open>\<bar>w\<bar>\<close> at least
  \<open>1e-8\<close>. Every stored correspondence comes from such a landmark, whose dehomogenized
  point is the stored point: a landmark with \<open>\<bar>w\<bar>\<close> below \<open>1e-8\<close> contributes neither a
  point nor a bearing vector, whatever its \<open>x, y, z\<close>.
\<close>

theorem correspondence_count:
  assumes "LoopclosureNoncentralAbsoluteAdapter points matches nCameraSystem frameB = Inr a"
  shows "getNumberCorrespondences a =
      card {(im, k). im < numCameras nCameraSystem \<and> k < numKeypoints frameB im \<and>
        (\<exists>lmId hp. matches (frameId frameB, im, k) = Some lmId \<and> lmId \<noteq> 0 \<and>
           points lmId = Some hp \<and> 1 / 10 ^ 8 \<le> \<bar>hp3 hp\<bar>)} \<and>
    (\<forall>i<getNumberCorrespondences a.
       \<exists>lmId hp. matches (frameId frameB, camIndices_m a ! i, keypointIndices_m a ! i) = Some lmId \<and>
          points lmId = Some hp \<and> 1 / 10 ^ 8 \<le> \<bar>hp3 hp\<bar> \<and>
          getPoint a i = Some (head3_div hp) \<and> getBearingVector a i \<noteq> None)"
proof -
  let ?ps = "pairsOf points matches frameB [0..<numCameras nCameraSystem]"
  have a: "a = assembled points matches nCameraSystem frameB"
    using constructor_Inr(4) [OF assms] .
  have n: "getNumberCorrespondences a = length ?ps"
    by (simp add: a getNumberCorrespondences_def assembled_fields)
  have "\<exists>lmId hp. matches (frameId frameB, camIndices_m a ! i, keypointIndices_m a ! i) = Some lmId \<and>
          points lmId = Some hp \<and> 1 / 10 ^ 8 \<le> \<bar>hp3 hp\<bar> \<and>
          getPoint a i = Some (head3_div hp) \<and> getBearingVector a i \<noteq> None"
    if "i < getNumberCorrespondences a" for i
  proof -
    from that n have i: "i < length ?ps" by simp
    from pairsOf_nth(3) [OF i] obtain lmId hp where
      lm: "matches (frameId frameB, fst (?ps ! i), snd (?ps ! i)) = Some lmId"
        "points lmId = Some hp" "1 / 10 ^ 8 \<le> \<bar>hp3 hp\<bar>"
      by (auto simp: accepted_iff)
    have "getPoint a i = Some (head3_div hp)"
      using i lm by (simp add: a getPoint_def elem_def assembled_fields pointOf_def)
    moreover have "getBearingVector a i \<noteq> None"
      using i by (simp add: a getBearingVector_def elem_def assembled_fields)
    moreover have "matches (frameId frameB, camIndices_m a ! i, keypointIndices_m a ! i) = Some lmId"
      using i lm(1) by (simp add: a assembled_fields)
    ultimately show ?thesis
      using lm(2,3) by blast
  qed
  then show ?thesis
    using n by (simp add: length_pairsOf)
qed

theorem correspondence_count_witness:
  "LoopclosureNoncentralAbsoluteAdapter exPoints exMatches exRig exFrame = Inr exAdapter \<and>
   getNumberCorrespondences exAdapter =
      card {(im, k). im < numCameras exRig \<and> k < numKeypoints exFrame im \<and>
        (\<exists>lmId hp. exMatches (frameId exFrame, im, k) = Some lmId \<and> lmId \<noteq> 0 \<and>
           exPoints lmId = Some hp \<and> 1 / 10 ^ 8 \<le> \<bar>hp3 hp\<bar>)} \<and>
   getNumberCorrespondences exAdapter = 2 \<and>
   (\<exists>lmId hp. exMatches (frameId exFrame, camIndices_m exAdapter ! 1,
                             keypointIndices_m exAdapter ! 1) = Some lmId \<and>
      exPoints lmId = Some hp \<and> 1 / 10 ^ 8 \<le> \<bar>hp3 hp\<bar> \<and>
      getPoint exAdapter 1 = Some (head3_div hp) \<and> getBearingVector exAdapter 1 \<noteq> None)"
proof -
  have n: "getNumberCorrespondences exAdapter = 2"
    by (simp add: getNumberCorrespondences_def exAdapter_def)
  then have "1 < getNumberCorrespondences exAdapter" by simp
  with correspondence_count [OF example_constructed] example_constructed n
  show ?thesis by blast
qed

text \<open>
  C4. If two cameras of the rig have different distortion types, the constructor throws
  the exception of its consistency check, whatever the landmark table, the associations
  and the frame are, and the members are still empty when it does: no camera and no
  keypoint has been processed.
\<close>

theorem mixed_rig_fatal:
  assumes "i < numCameras nCameraSystem" and "j < numCameras nCameraSystem"
    and "distortionType nCameraSystem i \<noteq> distortionType nCameraSystem j"
  shows "LoopclosureNoncentralAbsoluteAdapter points matches nCameraSystem frameB =
     Inl (Exception ''mixed frame types are not supported yet'', emptyAdapter)"
proof -
  have "\<not> singleFamily nCameraSystem"
    using assms by (auto simp: singleFamily_def)
  then show ?thesis by (rule constructor_mixed)
qed

theorem mixed_rig_fatal_witness:
  "(0::nat) < numCameras exMixedRig \<and> (1::nat) < numCameras exMixedRig \<and>
   distortionType exMixedRig 0 \<noteq> distortionType exMixedRig 1 \<and>
   LoopclosureNoncentralAbsoluteAdapter exPoints exMatches exMixedRig exFrame =
     Inl (Exception ''mixed frame types are not supported yet'', emptyAdapter)"
  using mixed_rig_fatal [of 0 exMixedRig 1 exPoints exMatches exFrame]
  by (simp add: exMixedRig_def)

text \<open>
  C5. A keypoint that passes the landmark checks and whose back-projection fails is not
  rejected and does not abort the pass: the loop body appends the dehomogenized point, the
  angular sigma, the bearing vector \<open>(1, 0, 0)\<close>, the camera index and the keypoint index.
  In every adapter the constructor returns, such a keypoint of the frame is one of the
  counted correspondences, with bearing vector exactly \<open>(1, 0, 0)\<close>.
\<close>

theorem failed_backprojection_fallback:
  assumes "matches (frameId frameB, im, k) = Some lmId" and "lmId \<noteq> 0"
    and "points lmId = Some hp" and "1 / 10 ^ 8 \<le> \<bar>hp3 hp\<bar>"
    and "\<not> fst (getBackProjection frameB im k)"
  shows "addKeypoint points matches frameB fu im k a =
      Inr (a\<lparr>points_m := points_m a @ [head3_div hp],
             sigmaAngles_m := sigmaAngles_m a @
               [sqrt 2 * (0.8 * getKeypointSize frameB im k / 12)
                  * (0.8 * getKeypointSize frameB im k / 12) / (fu * fu)],
             bearingVectors_m := bearingVectors_m a @ [(1, 0, 0)],
             camIndices_m := camIndices_m a @ [im],
             keypointIndices_m := keypointIndices_m a @ [k]\<rparr>) \<and>
    (\<forall>A. LoopclosureNoncentralAbsoluteAdapter points matches nCameraSystem frameB = Inr A \<and>
          im < numCameras nCameraSystem \<and> k < numKeypoints frameB im \<longrightarrow>
       (\<exists>i<getNumberCorrespondences A.
          camIndices_m A ! i = im \<and> keypointIndices_m A ! i = k \<and>
          getBearingVector A i = Some (1, 0, 0) \<and> getPoint A i = Some (head3_div hp) \<and>
          getSigmaAngle A i =
            Some (sqrt 2 * (0.8 * getKeypointSize frameB im k / 12)
                    * (0.8 * getKeypointSize frameB im k / 12)
                    / (focalLengthU frameB im * focalLengthU frameB im))))"
proof (intro conjI allI impI)
  have n: "normalize (1, 0, 0) = (1, 0, 0)"
    by (simp add: normalize_def squaredNorm_def)
  have w: "\<not> \<bar>hp3 hp\<bar> < 1 / 10 ^ 8"
    using assms(4) by linarith
  show "addKeypoint points matches frameB fu im k a =
      Inr (a\<lparr>points_m := points_m a @ [head3_div hp],
             sigmaAngles_m := sigmaAngles_m a @
               [sqrt 2 * (0.8 * getKeypointSize frameB im k / 12)
                  * (0.8 * getKeypointSize frameB im k / 12) / (fu * fu)],
             bearingVectors_m := bearingVectors_m a @ [(1, 0, 0)],
             camIndices_m := camIndices_m a @ [im],
             keypointIndices_m := keypointIndices_m a @ [k]\<rparr>)"
    unfolding addKeypoint_def Let_def
    by (simp only: assms(1,2,3,5) w n option.case if_False if_True not_False_eq_True) simp
next
  fix A
  assume A: "LoopclosureNoncentralAbsoluteAdapter points matches nCameraSystem frameB = Inr A \<and>
          im < numCameras nCameraSystem \<and> k < numKeypoints frameB im"
  let ?ps = "pairsOf points matches frameB [0..<numCameras nCameraSystem]"
  have eq: "A = assembled points matches nCameraSystem frameB"
    using A by (intro constructor_Inr(4)) simp
  have "accepted points matches frameB im k"
    unfolding accepted_iff using assms(1-4) by blast
  with A have "(im, k) \<in> set ?ps"
    by (simp add: set_pairsOf)
  then obtain i where i: "i < length ?ps" "?ps ! i = (im, k)"
    by (auto simp: in_set_conv_nth)
  have b: "bearingOf frameB (im, k) = (1, 0, 0)"
    using assms(5) by (simp add: bearingOf_def normalize_def squaredNorm_def)
  have "i < getNumberCorrespondences A"
    using i by (simp add: eq getNumberCorrespondences_def assembled_fields)
  moreover have "camIndices_m A ! i = im" "keypointIndices_m A ! i = k"
    using i by (simp_all add: eq assembled_fields)
  moreover have "getBearingVector A i = Some (1, 0, 0)"
    using i b by (simp add: eq getBearingVector_def elem_def assembled_fields)
  moreover have "getPoint A i = Some (head3_div hp)"
    using i assms(1,3) by (simp add: eq getPoint_def elem_def assembled_fields pointOf_def)
  moreover have "getSigmaAngle A i =
            Some (sqrt 2 * (0.8 * getKeypointSize frameB im k / 12)
                    * (0.8 * getKeypointSize frameB im k / 12)
                    / (focalLengthU frameB im * focalLengthU frameB im))"
    using i by (simp add: eq getSigmaAngle_def elem_def assembled_fields sigmaOf_def)
  ultimately show "\<exists>i<getNumberCorrespondences A.
          camIndices_m A ! i = im \<and> keypointIndices_m A ! i = k \<and>
          getBearingVector A i = Some (1, 0, 0) \<and> getPoint A i = Some (head3_div hp) \<and>
          getSigmaAngle A i =
            Some (sqrt 2 * (0.8 * getKeypointSize frameB im k / 12)
                    * (0.8 * getKeypointSize frameB im k / 12)
                    / (focalLengthU frameB im * focalLengthU frameB im))"
    by (intro exI [of _ i]) simp
qed

theorem failed_backprojection_fallback_witness:
  "exMatches (frameId exFrame, 0, 0) = Some 1 \<and> (1::64 word) \<noteq> 0 \<and>
   exPoints 1 = Some (2, 4, 6, 2) \<and> 1 / 10 ^ 8 \<le> \<bar>hp3 (2, 4, 6, 2)\<bar> \<and>
   \<not> fst (getBackProjection exFrame 0 0) \<and>
   addKeypoint exPoints exMatches exFrame 2 0 0 emptyAdapter =
      Inr (emptyAdapter\<lparr>points_m := points_m emptyAdapter @ [head3_div (2, 4, 6, 2)],
             sigmaAngles_m := sigmaAngles_m emptyAdapter @
               [sqrt 2 * (0.8 * getKeypointSize exFrame 0 0 / 12)
                  * (0.8 * getKeypointSize exFrame 0 0 / 12) / (2 * 2)],
             bearingVectors_m := bearingVectors_m emptyAdapter @ [(1, 0, 0)],
             camIndices_m := camIndices_m emptyAdapter @ [0],
             keypointIndices_m := keypointIndices_m emptyAdapter @ [0]\<rparr>) \<and>
   LoopclosureNoncentralAbsoluteAdapter exPoints exMatches exRig exFrame = Inr exAdapter \<and>
   (0::nat) < numCameras exRig \<and> (0::nat) < numKeypoints exFrame 0 \<and>
   (\<exists>i<getNumberCorrespondences exAdapter.
      camIndices_m exAdapter ! i = 0 \<and> keypointIndices_m exAdapter ! i = 0 \<and>
      getBearingVector exAdapter i = Some (1, 0, 0) \<and>
      getPoint exAdapter i = Some (head3_div (2, 4, 6, 2)))"
proof -
  have h: "exMatches (frameId exFrame, 0, 0) = Some 1" "(1::64 word) \<noteq> 0"
    "exPoints 1 = Some (2, 4, 6, 2)" "1 / 10 ^ 8 \<le> \<bar>hp3 (2, 4, 6, 2)\<bar>"
    "\<not> fst (getBackProjection exFrame 0 0)"
    by (simp_all add: exMatches_def exFrame_def exPoints_def hp3_def)
  have b: "(0::nat) < numCameras exRig" "(0::nat) < numKeypoints exFrame 0"
    by (simp_all add: exRig_def exFrame_def)
  note both = failed_backprojection_fallback
         [of exMatches exFrame 0 0 1 exPoints "(2, 4, 6, 2)" 2 emptyAdapter exRig, OF h]
  from both
  have step: "addKeypoint exPoints exMatches exFrame 2 0 0 emptyAdapter =
      Inr (emptyAdapter\<lparr>points_m := points_m emptyAdapter @ [head3_div (2, 4, 6, 2)],
             sigmaAngles_m := sigmaAngles_m emptyAdapter @
               [sqrt 2 * (0.8 * getKeypointSize exFrame 0 0 / 12)
                  * (0.8 * getKeypointSize exFrame 0 0 / 12) / (2 * 2)],
             bearingVectors_m := bearingVectors_m emptyAdapter @ [(1, 0, 0)],
             camIndices_m := camIndices_m emptyAdapter @ [0],
             keypointIndices_m := keypointIndices_m emptyAdapter @ [0]\<rparr>)"
    by (rule conjunct1)
  from both example_constructed b
  have "\<exists>i<getNumberCorrespondences exAdapter.
      camIndices_m exAdapter ! i = 0 \<and> keypointIndices_m exAdapter ! i = 0 \<and>
      getBearingVector exAdapter i = Some (1, 0, 0) \<and>
      getPoint exAdapter i = Some (head3_div (2, 4, 6, 2)) \<and>
      getSigmaAngle exAdapter i =
        Some (sqrt 2 * (0.8 * getKeypointSize exFrame 0 0 / 12)
                * (0.8 * getKeypointSize exFrame 0 0 / 12)
                / (focalLengthU exFrame 0 * focalLengthU exFrame 0))"
    by blast
  then have "\<exists>i<getNumberCorrespondences exAdapter.
      camIndices_m exAdapter ! i = 0 \<and> keypointIndices_m exAdapter ! i = 0 \<and>
      getBearingVector exAdapter i = Some (1, 0, 0) \<and>
      getPoint exAdapter i = Some (head3_div (2, 4, 6, 2))"
    by blast
  with h b step example_constructed show ?thesis
    by (intro conjI)
qed

text \<open>
  C7. For every correspondence \<open>i\<close> of a constructed adapter, \<open>getSigmaAngle\<close> returns
  \<open>sqrt 2 * (0.8 * keypointStdDev / 12)\<^sup>2 / focalLengthU\<^sup>2\<close>, with the size of the keypoint
  and the focal length of the camera that the stored indices name; that focal length is the
  one the \<^verbatim>\<open>switch\<close> on the rig's single distortion type reads.
\<close>

theorem sigma_angle_formula:
  assumes "LoopclosureNoncentralAbsoluteAdapter points matches nCameraSystem frameB = Inr a"
    and "i < getNumberCorrespondences a"
  shows "getSigmaAngle a i =
      Some (sqrt 2 * (0.8 * getKeypointSize frameB (camIndices_m a ! i) (keypointIndices_m a ! i) / 12)\<^sup>2
              / (focalLengthU frameB (camIndices_m a ! i))\<^sup>2) \<and>
    camIndices_m a ! i < numCameras nCameraSystem \<and>
    keypointIndices_m a ! i < numKeypoints frameB (camIndices_m a ! i) \<and>
    distortionType nCameraSystem (camIndices_m a ! i) = distortionType nCameraSystem 0 \<and>
    focalLength (distortionType nCameraSystem 0) frameB (camIndices_m a ! i) =
      Inr (focalLengthU frameB (camIndices_m a ! i))"
proof -
  let ?ps = "pairsOf points matches frameB [0..<numCameras nCameraSystem]"
  note ok = constructor_Inr [OF assms(1)]
  note eq = ok(4)
  have i: "i < length ?ps"
    using assms(2) by (simp add: eq getNumberCorrespondences_def assembled_fields)
  have c: "camIndices_m a ! i = fst (?ps ! i)" and k: "keypointIndices_m a ! i = snd (?ps ! i)"
    using i by (simp_all add: eq assembled_fields)
  have "getSigmaAngle a i = Some (sigmaOf frameB (?ps ! i))"
    using i by (simp add: eq getSigmaAngle_def elem_def assembled_fields)
  then have 1: "getSigmaAngle a i =
      Some (sqrt 2 * (0.8 * getKeypointSize frameB (camIndices_m a ! i) (keypointIndices_m a ! i) / 12)\<^sup>2
              / (focalLengthU frameB (camIndices_m a ! i))\<^sup>2)"
    by (simp add: sigmaOf_def c k power2_eq_square)
  have 2: "camIndices_m a ! i < numCameras nCameraSystem"
    and 3: "keypointIndices_m a ! i < numKeypoints frameB (camIndices_m a ! i)"
    using pairsOf_nth(1,2) [OF i] by (simp_all add: c k)
  from 2 have pos: "0 < numCameras nCameraSystem" by simp
  have 4: "distortionType nCameraSystem (camIndices_m a ! i) = distortionType nCameraSystem 0"
    using ok(1) 2 pos unfolding singleFamily_def by blast
  have 5: "focalLength (distortionType nCameraSystem 0) frameB (camIndices_m a ! i) =
      Inr (focalLengthU frameB (camIndices_m a ! i))"
    using ok(2) pos by (simp add: focalLength_supported)
  from 1 2 3 4 5 show ?thesis by simp
qed

theorem sigma_angle_formula_witness:
  "LoopclosureNoncentralAbsoluteAdapter exPoints exMatches exRig exFrame = Inr exAdapter \<and>
   (1::nat) < getNumberCorrespondences exAdapter \<and>
   getSigmaAngle exAdapter 1 =
      Some (sqrt 2 * (0.8 * getKeypointSize exFrame (camIndices_m exAdapter ! 1)
                              (keypointIndices_m exAdapter ! 1) / 12)\<^sup>2
              / (focalLengthU exFrame (camIndices_m exAdapter ! 1))\<^sup>2) \<and>
   getSigmaAngle exAdapter 1 = Some (sqrt 2 / 4)"
proof -
  have n: "(1::nat) < getNumberCorrespondences exAdapter"
    by (simp add: getNumberCorrespondences_def exAdapter_def)
  have "getSigmaAngle exAdapter 1 = Some (sqrt 2 / 4)"
    by (simp add: getSigmaAngle_def elem_def exAdapter_def)
  with sigma_angle_formula [OF example_constructed n] example_constructed n show ?thesis
    by blast
qed

lemma example_noMissing: "noMissing exPoints exMatches nCameraSystem exFrame"
  by (auto simp: noMissing_def missing_def exPoints_def exMatches_def exFrame_def
      split: option.splits if_splits)

lemma example_missing: "\<not> noMissing exPoints exMissingMatches exRig exFrame"
proof -
  have "missing exPoints exMissingMatches exFrame 0 1"
    by (simp add: missing_def exPoints_def exMissingMatches_def exFrame_def)
  moreover have "(0::nat) < numCameras exRig" "(1::nat) < numKeypoints exFrame 0"
    by (simp_all add: exRig_def exFrame_def)
  ultimately show ?thesis
    unfolding noMissing_def by blast
qed

lemma example_singleFamily: "singleFamily exRig"
  by (simp add: singleFamily_def exRig_def)

text \<open>
  C9. The precondition "every matched id other than the sentinel is in the landmark table"
  does not make the construction total by itself: with all lookups fine, a rig of two
  cameras of different families still throws.
\<close>

theorem lookup_precondition_counterexample:
  "noMissing exPoints exMatches exMixedRig exFrame \<and>
   LoopclosureNoncentralAbsoluteAdapter exPoints exMatches exMixedRig exFrame =
     Inl (Exception ''mixed frame types are not supported yet'', emptyAdapter)"
proof -
  have "\<not> singleFamily exMixedRig"
    by (auto simp: singleFamily_def exMixedRig_def intro!: exI [of _ 0] exI [of _ 1])
  from constructor_mixed [OF this] example_noMissing show ?thesis
    by simp
qed

text \<open>
  C9, as amended. Under the precondition the constructor never throws \<^verbatim>\<open>std::out_of_range\<close>.
  For a rig whose cameras share one of the three supported distortion families, the
  construction returns an adapter exactly when the precondition holds, and a missing id is
  no skip condition: the lookup throws and the construction is aborted.
\<close>

theorem lookup_precondition:
  "(noMissing points matches nCameraSystem frameB \<longrightarrow>
      (\<forall>a'. LoopclosureNoncentralAbsoluteAdapter points matches nCameraSystem frameB
              \<noteq> Inl (out_of_range, a'))) \<and>
   (singleFamily nCameraSystem \<and> distortionType nCameraSystem 0 \<noteq> NoDistortion \<longrightarrow>
      (noMissing points matches nCameraSystem frameB \<longrightarrow>
         (\<exists>a. LoopclosureNoncentralAbsoluteAdapter points matches nCameraSystem frameB = Inr a)) \<and>
      (\<not> noMissing points matches nCameraSystem frameB \<longrightarrow>
         (\<exists>a'. LoopclosureNoncentralAbsoluteAdapter points matches nCameraSystem frameB
                = Inl (out_of_range, a'))))"
proof (intro conjI impI allI)
  fix a'
  assume nm: "noMissing points matches nCameraSystem frameB"
  show "LoopclosureNoncentralAbsoluteAdapter points matches nCameraSystem frameB
          \<noteq> Inl (out_of_range, a')"
  proof (cases "singleFamily nCameraSystem")
    case False
    from constructor_mixed [OF this] show ?thesis by simp
  next
    case True
    show ?thesis
    proof (cases "distortionType nCameraSystem 0 \<noteq> NoDistortion \<or> numCameras nCameraSystem = 0")
      case ok: True
      from constructor_ok [OF True ok nm] show ?thesis by simp
    next
      case False
      then have "distortionType nCameraSystem 0 = NoDistortion" "0 < numCameras nCameraSystem"
        by auto
      then show ?thesis
        by (simp add: constructor_check_ok [OF True] upt_conv_Cons addCamera_unsupported)
    qed
  qed
next
  assume "singleFamily nCameraSystem \<and> distortionType nCameraSystem 0 \<noteq> NoDistortion"
    and "noMissing points matches nCameraSystem frameB"
  then show "\<exists>a. LoopclosureNoncentralAbsoluteAdapter points matches nCameraSystem frameB = Inr a"
    using constructor_ok by blast
next
  assume rig: "singleFamily nCameraSystem \<and> distortionType nCameraSystem 0 \<noteq> NoDistortion"
    and neg: "\<not> noMissing points matches nCameraSystem frameB"
  from neg have ex: "\<exists>im\<in>set [0..<numCameras nCameraSystem]. \<exists>k<numKeypoints frameB im.
        missing points matches frameB im k"
    by (auto simp: noMissing_def)
  from rig have dt: "distortionType nCameraSystem 0 \<noteq> NoDistortion" by simp
  from cameraLoop_missing [OF dt ex, of emptyAdapter]
  show "\<exists>a'. LoopclosureNoncentralAbsoluteAdapter points matches nCameraSystem frameB
                = Inl (out_of_range, a')"
    using rig by (simp add: constructor_check_ok)
qed

theorem lookup_precondition_witness:
  "noMissing exPoints exMatches exRig exFrame \<and> singleFamily exRig \<and>
   distortionType exRig 0 \<noteq> NoDistortion \<and>
   (\<exists>a. LoopclosureNoncentralAbsoluteAdapter exPoints exMatches exRig exFrame = Inr a) \<and>
   \<not> noMissing exPoints exMissingMatches exRig exFrame \<and>
   (\<exists>a'. LoopclosureNoncentralAbsoluteAdapter exPoints exMissingMatches exRig exFrame
          = Inl (out_of_range, a'))"
proof -
  have dt: "distortionType exRig 0 \<noteq> NoDistortion"
    by (simp add: exRig_def)
  from lookup_precondition [of exPoints exMatches exRig exFrame]
    lookup_precondition [of exPoints exMissingMatches exRig exFrame]
    example_noMissing [of exRig] example_missing example_singleFamily dt
  show ?thesis by blast
qed

lemma squaredNorm_pos: "v \<noteq> (0, 0, 0) \<Longrightarrow> 0 < squaredNorm v"
proof -
  obtain x y z where v: "v = (x, y, z)" by (cases v)
  assume "v \<noteq> (0, 0, 0)"
  then have "x \<noteq> 0 \<or> y \<noteq> 0 \<or> z \<noteq> 0" by (simp add: v)
  moreover have "0 \<le> x * x" "0 \<le> y * y" "0 \<le> z * z" by simp_all
  moreover have "x \<noteq> 0 \<Longrightarrow> 0 < x * x" "y \<noteq> 0 \<Longrightarrow> 0 < y * y" "z \<noteq> 0 \<Longrightarrow> 0 < z * z"
    by (auto simp: zero_less_mult_iff)
  ultimately have "0 < x * x + y * y + z * z"
    by (metis add_nonneg_pos add_pos_nonneg add_nonneg_nonneg)
  then show ?thesis by (simp add: v squaredNorm_def)
qed

lemma norm3_normalize:
  assumes "v \<noteq> (0, 0, 0)"
  shows "norm3 (normalize v) = 1"
proof -
  obtain x y z where v: "v = (x, y, z)" by (cases v)
  let ?n = "x * x + y * y + z * z"
  have pos: "0 < ?n"
    using squaredNorm_pos [OF assms] by (simp add: v squaredNorm_def)
  have "x * x / ?n + y * y / ?n + z * z / ?n = (x * x + y * y + z * z) / ?n"
    by (simp only: add_divide_distrib)
  also have "\<dots> = 1"
    using pos by simp
  finally show ?thesis
    using pos by (simp add: v norm3_def normalize_def squaredNorm_def Let_def)
qed

lemma norm3_bearingOf:
  assumes "fst (getBackProjection frameB (fst p) (snd p)) \<longrightarrow>
           snd (getBackProjection frameB (fst p) (snd p)) \<noteq> (0, 0, 0)"
  shows "norm3 (bearingOf frameB p) = 1"
  using assms by (auto simp: bearingOf_def intro!: norm3_normalize)

text \<open>
  C10. In every adapter the constructor returns, the five correspondence arrays have the
  length \<open>getNumberCorrespondences\<close>, there is one offset and one rotation per camera of
  the rig, every stored camera index is below the number of cameras, and each accessor is
  in range for every index below \<open>getNumberCorrespondences\<close>. Every stored bearing vector
  has unit norm: index by index, whenever the back-projection of its keypoint failed (the
  fallback \<open>(1, 0, 0)\<close> is stored) or wrote a vector other than zero, and so at every index
  when the back-projections of the frame are directions. The accessors are functions of the
  adapter: they return a value and leave the adapter as it is.
\<close>

theorem adapter_invariant:
  assumes "LoopclosureNoncentralAbsoluteAdapter points matches nCameraSystem frameB = Inr a"
  shows "length (points_m a) = getNumberCorrespondences a \<and>
    length (bearingVectors_m a) = getNumberCorrespondences a \<and>
    length (sigmaAngles_m a) = getNumberCorrespondences a \<and>
    length (camIndices_m a) = getNumberCorrespondences a \<and>
    length (keypointIndices_m a) = getNumberCorrespondences a \<and>
    length (camOffsets_m a) = numCameras nCameraSystem \<and>
    length (camRotations_m a) = numCameras nCameraSystem \<and>
    (\<forall>i<getNumberCorrespondences a.
       camIndices_m a ! i < numCameras nCameraSystem \<and>
       getBearingVector a i = Some (bearingVectors_m a ! i) \<and>
       getPoint a i = Some (points_m a ! i) \<and>
       getCamOffset a i = Some (camOffsets_m a ! (camIndices_m a ! i)) \<and>
       getCamRotation a i = Some (camRotations_m a ! (camIndices_m a ! i)) \<and>
       getSigmaAngle a i = Some (sigmaAngles_m a ! i) \<and>
       ((fst (getBackProjection frameB (camIndices_m a ! i) (keypointIndices_m a ! i)) \<longrightarrow>
           snd (getBackProjection frameB (camIndices_m a ! i) (keypointIndices_m a ! i))
             \<noteq> (0, 0, 0)) \<longrightarrow>
        norm3 (bearingVectors_m a ! i) = 1)) \<and>
    (backProjectsDirections nCameraSystem frameB \<longrightarrow>
       (\<forall>i<getNumberCorrespondences a.
          \<exists>b. getBearingVector a i = Some b \<and> norm3 b = 1))"
proof -
  let ?ps = "pairsOf points matches frameB [0..<numCameras nCameraSystem]"
  have eq: "a = assembled points matches nCameraSystem frameB"
    using constructor_Inr(4) [OF assms] .
  have n: "getNumberCorrespondences a = length ?ps"
    by (simp add: eq getNumberCorrespondences_def assembled_fields)
  have lens: "length (points_m a) = length ?ps" "length (bearingVectors_m a) = length ?ps"
    "length (sigmaAngles_m a) = length ?ps" "length (camIndices_m a) = length ?ps"
    "length (keypointIndices_m a) = length ?ps"
    "length (camOffsets_m a) = numCameras nCameraSystem"
    "length (camRotations_m a) = numCameras nCameraSystem"
    by (simp_all add: eq assembled_fields)
  have stored: "camIndices_m a ! i = fst (?ps ! i)" "keypointIndices_m a ! i = snd (?ps ! i)"
    "bearingVectors_m a ! i = bearingOf frameB (?ps ! i)"
    if "i < length ?ps" for i
    using that by (simp_all add: eq assembled_fields)
  have each: "camIndices_m a ! i < numCameras nCameraSystem \<and>
       getBearingVector a i = Some (bearingVectors_m a ! i) \<and>
       getPoint a i = Some (points_m a ! i) \<and>
       getCamOffset a i = Some (camOffsets_m a ! (camIndices_m a ! i)) \<and>
       getCamRotation a i = Some (camRotations_m a ! (camIndices_m a ! i)) \<and>
       getSigmaAngle a i = Some (sigmaAngles_m a ! i) \<and>
       ((fst (getBackProjection frameB (camIndices_m a ! i) (keypointIndices_m a ! i)) \<longrightarrow>
           snd (getBackProjection frameB (camIndices_m a ! i) (keypointIndices_m a ! i))
             \<noteq> (0, 0, 0)) \<longrightarrow>
        norm3 (bearingVectors_m a ! i) = 1)"
    if "i < length ?ps" for i
  proof -
    note c = stored(1) [OF that] and k = stored(2) [OF that] and b = stored(3) [OF that]
    have cam: "camIndices_m a ! i < numCameras nCameraSystem"
      using pairsOf_nth(1) [OF that] by (simp add: c)
    have "getBearingVector a i = Some (bearingVectors_m a ! i)"
      "getPoint a i = Some (points_m a ! i)"
      "getSigmaAngle a i = Some (sigmaAngles_m a ! i)"
      using that lens by (simp_all add: getBearingVector_def getPoint_def getSigmaAngle_def elem_def)
    moreover have "getCamOffset a i = Some (camOffsets_m a ! (camIndices_m a ! i))"
      "getCamRotation a i = Some (camRotations_m a ! (camIndices_m a ! i))"
      using that lens cam by (simp_all add: getCamOffset_def getCamRotation_def elem_def)
    moreover have "norm3 (bearingVectors_m a ! i) = 1"
      if "fst (getBackProjection frameB (camIndices_m a ! i) (keypointIndices_m a ! i)) \<longrightarrow>
           snd (getBackProjection frameB (camIndices_m a ! i) (keypointIndices_m a ! i))
             \<noteq> (0, 0, 0)"
      using that by (simp only: b c k norm3_bearingOf)
    ultimately show ?thesis
      using cam by blast
  qed
  have unit: "\<exists>b. getBearingVector a i = Some b \<and> norm3 b = 1"
    if dir: "backProjectsDirections nCameraSystem frameB" and i: "i < length ?ps" for i
  proof -
    have "camIndices_m a ! i < numCameras nCameraSystem"
      and "keypointIndices_m a ! i < numKeypoints frameB (camIndices_m a ! i)"
      using pairsOf_nth(1,2) [OF i] by (simp_all only: stored(1,2) [OF i])
    with dir have "fst (getBackProjection frameB (camIndices_m a ! i) (keypointIndices_m a ! i)) \<longrightarrow>
        snd (getBackProjection frameB (camIndices_m a ! i) (keypointIndices_m a ! i)) \<noteq> (0, 0, 0)"
      unfolding backProjectsDirections_def by blast
    with each [OF i] show ?thesis by blast
  qed
  show ?thesis
    using lens each unit by (simp only: n) blast
qed

theorem adapter_invariant_witness:
  "LoopclosureNoncentralAbsoluteAdapter exPoints exMatches exRig exFrame = Inr exAdapter \<and>
   backProjectsDirections exRig exFrame \<and>
   length (points_m exAdapter) = getNumberCorrespondences exAdapter \<and>
   length (bearingVectors_m exAdapter) = getNumberCorrespondences exAdapter \<and>
   length (sigmaAngles_m exAdapter) = getNumberCorrespondences exAdapter \<and>
   length (camIndices_m exAdapter) = getNumberCorrespondences exAdapter \<and>
   length (keypointIndices_m exAdapter) = getNumberCorrespondences exAdapter \<and>
   (1::nat) < getNumberCorrespondences exAdapter \<and>
   getCamOffset exAdapter 1 = Some (camOffsets_m exAdapter ! (camIndices_m exAdapter ! 1)) \<and>
   norm3 (bearingVectors_m exAdapter ! 1) = 1 \<and>
   (\<exists>b. getBearingVector exAdapter 0 = Some b \<and> norm3 b = 1) \<and>
   (\<exists>b. getBearingVector exAdapter 1 = Some b \<and> norm3 b = 1)"
proof -
  have n: "(0::nat) < getNumberCorrespondences exAdapter"
    "(1::nat) < getNumberCorrespondences exAdapter"
    by (simp_all add: getNumberCorrespondences_def exAdapter_def)
  have bp: "fst (getBackProjection exFrame (camIndices_m exAdapter ! 1)
               (keypointIndices_m exAdapter ! 1)) \<longrightarrow>
            snd (getBackProjection exFrame (camIndices_m exAdapter ! 1)
               (keypointIndices_m exAdapter ! 1)) \<noteq> (0, 0, 0)"
    by (simp add: exFrame_def exAdapter_def)
  have dir: "backProjectsDirections exRig exFrame"
    by (simp add: backProjectsDirections_def exFrame_def)
  from adapter_invariant [OF example_constructed] n bp dir example_constructed show ?thesis
    by blast
qed

section \<open>Properties of the RelativePoseError\<close>

subsection \<open>The decomposition of a positive-definite matrix\<close>

lemma gram_quadratic:
  fixes a :: "nat \<Rightarrow> nat \<Rightarrow> real" and y :: "nat \<Rightarrow> real"
  shows "(\<Sum>i\<in>I. \<Sum>j\<in>I. y i * (\<Sum>l\<in>K. a i l * a j l) * y j) =
         (\<Sum>l\<in>K. (\<Sum>i\<in>I. a i l * y i) * (\<Sum>i\<in>I. a i l * y i))"
proof -
  have "(\<Sum>l\<in>K. (\<Sum>i\<in>I. a i l * y i) * (\<Sum>i\<in>I. a i l * y i)) =
        (\<Sum>l\<in>K. \<Sum>i\<in>I. \<Sum>j\<in>I. (a i l * y i) * (a j l * y j))"
    by (simp add: sum_product)
  also have "\<dots> = (\<Sum>i\<in>I. \<Sum>l\<in>K. \<Sum>j\<in>I. (a i l * y i) * (a j l * y j))"
    by (rule sum.swap)
  also have "\<dots> = (\<Sum>i\<in>I. \<Sum>j\<in>I. \<Sum>l\<in>K. (a i l * y i) * (a j l * y j))"
    by (intro sum.cong refl sum.swap)
  also have "\<dots> = (\<Sum>i\<in>I. \<Sum>j\<in>I. y i * (\<Sum>l\<in>K. a i l * a j l) * y j)"
    by (intro sum.cong refl) (simp add: sum_distrib_left sum_distrib_right mult_ac)
  finally show ?thesis by simp
qed

lemma back_substitution:
  fixes m :: Matrix
  assumes diag: "\<forall>j<k. m j j \<noteq> 0" and d: "d \<le> k"
  shows "\<exists>y. y k = 1 \<and> (\<forall>i>k. y i = 0) \<and>
             (\<forall>l. k - d \<le> l \<and> l < k \<longrightarrow> (\<Sum>i\<in>{l..k}. m i l * y i) = 0)"
  using d
proof (induction d)
  case 0
  show ?case
    by (intro exI [of _ "\<lambda>i. if i = k then 1 else 0"]) auto
next
  case (Suc d)
  then have "d \<le> k" by simp
  from Suc.IH [OF this] obtain y where y: "y k = 1" "\<forall>i>k. y i = 0"
    "\<forall>l. k - d \<le> l \<and> l < k \<longrightarrow> (\<Sum>i\<in>{l..k}. m i l * y i) = 0" by blast
  define l0 where "l0 = k - Suc d"
  have l0: "l0 < k" "k - d = Suc l0"
    using Suc.prems by (auto simp: l0_def)
  define y' where "y' = y(l0 := - (\<Sum>i\<in>{Suc l0..k}. m i l0 * y i) / m l0 l0)"
  have nz: "m l0 l0 \<noteq> 0" using diag l0 by simp
  have same: "(\<Sum>i\<in>{l..k}. m i l * y' i) = (\<Sum>i\<in>{l..k}. m i l * y i)" if "Suc l0 \<le> l" for l
    using that by (intro sum.cong refl) (simp add: y'_def)
  have split: "{l0..k} = insert l0 {Suc l0..k}"
    using l0 by auto
  have "(\<Sum>i\<in>{l0..k}. m i l0 * y' i) = m l0 l0 * y' l0 + (\<Sum>i\<in>{Suc l0..k}. m i l0 * y' i)"
    by (simp add: split)
  also have "(\<Sum>i\<in>{Suc l0..k}. m i l0 * y' i) = (\<Sum>i\<in>{Suc l0..k}. m i l0 * y i)"
    by (intro sum.cong refl) (simp add: y'_def)
  also have "m l0 l0 * y' l0 = - (\<Sum>i\<in>{Suc l0..k}. m i l0 * y i)"
    using nz by (simp add: y'_def)
  finally have here: "(\<Sum>i\<in>{l0..k}. m i l0 * y' i) = 0" by simp
  have "y' k = 1" "\<forall>i>k. y' i = 0"
    using y l0 by (auto simp: y'_def)
  moreover have "(\<Sum>i\<in>{l..k}. m i l * y' i) = 0" if "k - Suc d \<le> l \<and> l < k" for l
  proof (cases "l = l0")
    case True
    then show ?thesis using here by simp
  next
    case False
    with that have "Suc l0 \<le> l" by (simp add: l0_def)
    then show ?thesis using same [of l] y(3) that l0 by simp
  qed
  ultimately show ?case by blast
qed

lemma quadForm_support:
  assumes "k < n" and "\<forall>i>k. y i = 0"
  shows "quadForm n M y = (\<Sum>i\<le>k. \<Sum>j\<le>k. y i * M i j * y j)"
proof -
  have sub: "{..k} \<subseteq> {..<n}" using assms(1) by auto
  have "quadForm n M y = (\<Sum>i<n. \<Sum>j\<le>k. y i * M i j * y j)"
    unfolding quadForm_def
    by (intro sum.cong refl sum.mono_neutral_right [OF _ sub]) (use assms(2) in auto)
  also have "\<dots> = (\<Sum>i\<le>k. \<Sum>j\<le>k. y i * M i j * y j)"
    by (intro sum.mono_neutral_right [OF _ sub]) (use assms(2) in auto)
  finally show ?thesis .
qed

lemma llt_pivot_positive:
  assumes pd: "positiveDefinite n M" and inv: "llt_inv n M k m" and k: "k < n"
  shows "0 < m k k - (\<Sum>j<k. m k j * m k j)"
proof -
  define x where "x = M k k - (\<Sum>j<k. m k j * m k j)"
  define Lt where "Lt = (\<lambda>i l. if l \<le> i then m i l else 0)"
  have sym: "\<And>i j. i < n \<Longrightarrow> j < n \<Longrightarrow> M i j = M j i"
    using pd by (simp add: positiveDefinite_def symmetric_def)
  have a: "\<And>i j. i < n \<Longrightarrow> j < k \<Longrightarrow> j \<le> i \<Longrightarrow> (\<Sum>l\<le>j. m i l * m j l) = M i j"
    and b: "\<And>j. j < k \<Longrightarrow> 0 < m j j"
    and c: "m k k = M k k"
    using inv by (auto simp: llt_inv_def)
  have lower: "(\<Sum>l<k. Lt i l * Lt j l) = M i j" if "i \<le> k" "j < k" "j \<le> i" for i j
  proof -
    have sub: "{..j} \<subseteq> {..<k}" using that by auto
    have "(\<Sum>l<k. Lt i l * Lt j l) = (\<Sum>l\<le>j. Lt i l * Lt j l)"
      by (intro sum.mono_neutral_right [OF _ sub]) (auto simp: Lt_def)
    also have "\<dots> = (\<Sum>l\<le>j. m i l * m j l)"
      using that by (intro sum.cong refl) (auto simp: Lt_def)
    also have "\<dots> = M i j"
      using that k by (intro a) auto
    finally show ?thesis .
  qed
  have gram: "M i j = (\<Sum>l<k. Lt i l * Lt j l) + (if i = k \<and> j = k then x else 0)"
    if "i \<le> k" "j \<le> k" for i j
  proof (cases "i = k \<and> j = k")
    case True
    have "(\<Sum>l<k. Lt k l * Lt k l) = (\<Sum>l<k. m k l * m k l)"
      by (intro sum.cong refl) (auto simp: Lt_def)
    then show ?thesis using True by (simp add: x_def)
  next
    case False
    show ?thesis
    proof (cases "j \<le> i")
      case True
      with False that have "j < k" by auto
      from lower [OF that(1) this True] False show ?thesis by auto
    next
      case ji: False
      then have "i < k" "i \<le> j" using that by auto
      from lower [OF that(2) this] have "(\<Sum>l<k. Lt j l * Lt i l) = M j i" .
      moreover have "M i j = M j i" using that k by (intro sym) auto
      ultimately show ?thesis using False by (auto simp: mult.commute)
    qed
  qed
  have "\<forall>j<k. m j j \<noteq> 0" using b by fastforce
  from back_substitution [of k m k, OF this] obtain y where y: "y k = 1" "\<forall>i>k. y i = 0"
    "\<forall>l. l < k \<longrightarrow> (\<Sum>i\<in>{l..k}. m i l * y i) = 0"
    by auto
  have col: "(\<Sum>i\<le>k. Lt i l * y i) = 0" if "l < k" for l
  proof -
    have sub: "{l..k} \<subseteq> {..k}" by auto
    have "(\<Sum>i\<le>k. Lt i l * y i) = (\<Sum>i\<in>{l..k}. Lt i l * y i)"
      by (intro sum.mono_neutral_right [OF _ sub]) (auto simp: Lt_def)
    also have "\<dots> = (\<Sum>i\<in>{l..k}. m i l * y i)"
      by (intro sum.cong refl) (auto simp: Lt_def)
    finally show ?thesis using y(3) that by simp
  qed
  have "quadForm n M y = (\<Sum>i\<le>k. \<Sum>j\<le>k. y i * M i j * y j)"
    by (rule quadForm_support [OF k y(2)])
  also have "\<dots> = (\<Sum>i\<le>k. \<Sum>j\<le>k.
      y i * (\<Sum>l<k. Lt i l * Lt j l) * y j + y i * (if i = k \<and> j = k then x else 0) * y j)"
    by (intro sum.cong refl) (simp add: gram algebra_simps)
  also have "\<dots> = (\<Sum>i\<le>k. \<Sum>j\<le>k. y i * (\<Sum>l<k. Lt i l * Lt j l) * y j) +
      (\<Sum>i\<le>k. \<Sum>j\<le>k. y i * (if i = k \<and> j = k then x else 0) * y j)"
    by (simp add: sum.distrib)
  also have "(\<Sum>i\<le>k. \<Sum>j\<le>k. y i * (\<Sum>l<k. Lt i l * Lt j l) * y j) =
      (\<Sum>l<k. (\<Sum>i\<le>k. Lt i l * y i) * (\<Sum>i\<le>k. Lt i l * y i))"
    by (rule gram_quadratic)
  also have "\<dots> = 0"
    by (simp add: col)
  also have "(\<Sum>i\<le>k. \<Sum>j\<le>k. y i * (if i = k \<and> j = k then x else 0) * y j) =
      (\<Sum>i\<le>k. if i = k then y k * x * y k else 0)"
    by (intro sum.cong refl) (auto simp: if_distrib [of "\<lambda>t. _ * t * _"] cong: if_cong)
  also have "\<dots> = x"
    by (simp add: y(1))
  finally have "quadForm n M y = x" by simp
  moreover have "0 < quadForm n M y"
  proof -
    have "\<exists>i<n. y i \<noteq> 0" using k y(1) by (intro exI [of _ k]) simp
    then show ?thesis using pd by (simp add: positiveDefinite_def)
  qed
  ultimately show ?thesis by (simp add: x_def c)
qed

lemma llt_inv_init: "llt_inv n M 0 M"
  by (simp add: llt_inv_def)

lemma llt_column_step:
  assumes inv: "llt_inv n M k m" and k: "k < n"
    and pivot: "0 < m k k - (\<Sum>j<k. m k j * m k j)"
  shows "\<exists>m'. llt_column n m k = Some m' \<and> llt_inv n M (Suc k) m'"
proof -
  define x where "x = m k k - (\<Sum>j<k. m k j * m k j)"
  have x: "0 < x"
    unfolding x_def by (rule pivot)
  define m' where "m' = (\<lambda>i j.
        if j = k \<and> i = k then sqrt x
        else if j = k \<and> k < i \<and> i < n then (m i k - (\<Sum>l<k. m i l * m k l)) / sqrt x
        else m i j)"
  have col: "llt_column n m k = Some m'"
    using x by (simp add: llt_column_def Let_def x_def [symmetric] m'_def)
  have a: "\<And>i j. i < n \<Longrightarrow> j < k \<Longrightarrow> j \<le> i \<Longrightarrow> (\<Sum>l\<le>j. m i l * m j l) = M i j"
    and b: "\<And>j. j < k \<Longrightarrow> 0 < m j j"
    and c: "\<And>i j. \<not> (j < k \<and> j \<le> i \<and> i < n) \<Longrightarrow> m i j = M i j"
    using inv by (auto simp: llt_inv_def)
  have old: "m' i j = m i j" if "j \<noteq> k" for i j
    using that by (simp add: m'_def)
  have sq: "sqrt x * sqrt x = x" using x by simp
  have pos: "sqrt x \<noteq> 0" using x by simp
  have a': "(\<Sum>l\<le>j. m' i l * m' j l) = M i j" if "i < n" "j < Suc k" "j \<le> i" for i j
  proof (cases "j = k")
    case False
    with that have jk: "j < k" by simp
    have "(\<Sum>l\<le>j. m' i l * m' j l) = (\<Sum>l\<le>j. m i l * m j l)"
      using jk by (intro sum.cong refl) (simp add: old)
    then show ?thesis using a [OF that(1) jk that(3)] by simp
  next
    case True
    have "(\<Sum>l\<le>k. m' i l * m' k l) = (\<Sum>l<k. m' i l * m' k l) + m' i k * m' k k"
      by (simp add: lessThan_Suc_atMost [symmetric])
    also have "(\<Sum>l<k. m' i l * m' k l) = (\<Sum>l<k. m i l * m k l)"
      by (intro sum.cong refl) (simp add: old)
    also have "m' i k * m' k k = m i k - (\<Sum>l<k. m i l * m k l)"
    proof (cases "i = k")
      case True
      have "m' k k * m' k k = x" using x by (simp add: m'_def)
      then show ?thesis using True by (simp add: x_def)
    next
      case False
      with that True have "k < i" by simp
      then show ?thesis using that(1) pos by (simp add: m'_def)
    qed
    finally have "(\<Sum>l\<le>k. m' i l * m' k l) = m i k" by simp
    moreover have "m i k = M i k" by (rule c) simp
    ultimately show ?thesis using True by simp
  qed
  have b': "0 < m' j j" if "j < Suc k" for j
  proof (cases "j = k")
    case True
    then show ?thesis using x by (simp add: m'_def)
  next
    case False
    with that have "j < k" by simp
    then show ?thesis using b False by (simp add: old)
  qed
  have c': "m' i j = M i j" if "\<not> (j < Suc k \<and> j \<le> i \<and> i < n)" for i j
  proof (cases "j = k")
    case True
    with that have "\<not> (k \<le> i \<and> i < n)" by simp
    then have "m' i k = m i k" using k by (auto simp: m'_def)
    moreover have "m i k = M i k" by (rule c) simp
    ultimately show ?thesis using True by simp
  next
    case False
    with that have "\<not> (j < k \<and> j \<le> i \<and> i < n)" by auto
    from c [OF this] False show ?thesis by (simp add: old)
  qed
  have "llt_inv n M (Suc k) m'"
    unfolding llt_inv_def using a' b' c' by blast
  with col show ?thesis by blast
qed

lemma llt_column_inv:
  assumes pd: "positiveDefinite n M" and inv: "llt_inv n M k m" and k: "k < n"
  shows "\<exists>m'. llt_column n m k = Some m' \<and> llt_inv n M (Suc k) m'"
  using inv k llt_pivot_positive [OF pd inv k] by (rule llt_column_step)

lemma llt_unblocked_inv:
  assumes pd: "positiveDefinite n M"
  shows "llt_inv n M k m \<Longrightarrow> k \<le> n \<Longrightarrow>
         \<exists>m'. llt_unblocked n [k..<n] m = (m', - 1) \<and> llt_inv n M n m'"
proof (induction "n - k" arbitrary: k m)
  case 0
  then have "k = n" by simp
  with "0.prems" show ?case by simp
next
  case (Suc d)
  then have k: "k < n" by simp
  from llt_column_inv [OF pd Suc.prems(1) k] obtain m1 where
    m1: "llt_column n m k = Some m1" "llt_inv n M (Suc k) m1" by blast
  have "d = n - Suc k" using Suc.hyps(2) by simp
  from Suc.hyps(1) [OF this m1(2)] k obtain m' where
    "llt_unblocked n [Suc k..<n] m1 = (m', - 1)" "llt_inv n M n m'" by auto
  then show ?case
    using k m1(1) by (simp add: upt_conv_Cons)
qed

lemma llt_inv_gram:
  assumes inv: "llt_inv n M n m'" and sym: "symmetric n M" and i: "i < n" and j: "j < n"
  shows "(\<Sum>l<n. (if l \<le> i then m' i l else 0) * (if l \<le> j then m' j l else 0)) = M i j"
proof -
  define L where "L = (\<lambda>i l. if l \<le> i then m' i l else 0)"
  have a: "\<And>i j. i < n \<Longrightarrow> j \<le> i \<Longrightarrow> (\<Sum>l\<le>j. m' i l * m' j l) = M i j"
    using inv by (auto simp: llt_inv_def)
  have lower: "(\<Sum>l<n. L i l * L j l) = M i j" if "i < n" "j \<le> i" for i j
  proof -
    have sub: "{..j} \<subseteq> {..<n}" using that by auto
    have "(\<Sum>l<n. L i l * L j l) = (\<Sum>l\<le>j. L i l * L j l)"
      by (intro sum.mono_neutral_right [OF _ sub]) (auto simp: L_def)
    also have "\<dots> = (\<Sum>l\<le>j. m' i l * m' j l)"
      using that by (intro sum.cong refl) (auto simp: L_def)
    finally show ?thesis using a [OF that] by simp
  qed
  have "(\<Sum>l<n. L i l * L j l) = M i j"
  proof (cases "j \<le> i")
    case True
    from lower [OF i True] show ?thesis .
  next
    case False
    then have "i \<le> j" by simp
    from lower [OF j this] have "(\<Sum>l<n. L j l * L i l) = M j i" .
    moreover have "M i j = M j i" using sym i j by (simp add: symmetric_def)
    ultimately show ?thesis by (simp add: mult.commute)
  qed
  then show ?thesis by (simp add: L_def)
qed

theorem llt_correct:
  assumes pd: "positiveDefinite n M"
  shows "m_info (LLT_compute n M) = Success"
    and "\<And>i j. i < n \<Longrightarrow> j < n \<Longrightarrow>
           (\<Sum>l<n. matrixL (LLT_compute n M) i l * matrixL (LLT_compute n M) j l) = M i j"
    and "\<And>i. i < n \<Longrightarrow> 0 < matrixL (LLT_compute n M) i i"
proof -
  from llt_unblocked_inv [OF pd llt_inv_init] obtain m' where
    m': "llt_unblocked n [0..<n] M = (m', - 1)" "llt_inv n M n m'" by auto
  have llt: "LLT_compute n M = \<lparr>m_matrix = m', m_info = Success\<rparr>"
    by (simp add: LLT_compute_def m'(1))
  show "m_info (LLT_compute n M) = Success" by (simp add: llt)
  have sym: "symmetric n M"
    using pd by (simp add: positiveDefinite_def)
  have mm: "m_matrix (LLT_compute n M) = m'"
    by (simp add: llt)
  have ml: "matrixL (LLT_compute n M) = (\<lambda>i j. if j \<le> i then m' i j else 0)"
    unfolding matrixL_def mm ..
  show "(\<Sum>l<n. matrixL (LLT_compute n M) i l * matrixL (LLT_compute n M) j l) = M i j"
    if "i < n" "j < n" for i j
    using llt_inv_gram [OF m'(2) sym that] by (simp only: ml)
  show "0 < matrixL (LLT_compute n M) i i" if "i < n" for i
    using m'(2) that by (simp add: ml llt_inv_def)
qed

lemma llt_unblocked_success:
  "llt_unblocked n [k..<n] m = (m', - 1) \<Longrightarrow> llt_inv n M k m \<Longrightarrow> k \<le> n \<Longrightarrow>
   llt_inv n M n m'"
proof (induction "n - k" arbitrary: k m)
  case 0
  then show ?case by simp
next
  case (Suc d)
  then have k: "k < n" by simp
  from Suc.prems(1) k obtain m1 where m1: "llt_column n m k = Some m1"
    "llt_unblocked n [Suc k..<n] m1 = (m', - 1)"
    by (auto simp: upt_conv_Cons split: option.splits)
  from m1(1) have "0 < m k k - (\<Sum>j<k. m k j * m k j)"
    by (auto simp: llt_column_def Let_def split: if_splits)
  from llt_column_step [OF Suc.prems(2) k this] m1(1) have inv: "llt_inv n M (Suc k) m1"
    by auto
  have "d = n - Suc k" using Suc.hyps(2) by simp
  from Suc.hyps(1) [OF this m1(2) inv] k show ?case by simp
qed

lemma upper_triangular_kernel:
  fixes m :: Matrix and x :: Vector
  assumes diag: "\<forall>l<n. m l l \<noteq> 0"
    and zero: "\<forall>l<n. (\<Sum>i\<in>{l..<n}. m i l * x i) = 0"
    and d: "d \<le> n"
  shows "\<forall>i. n - d \<le> i \<and> i < n \<longrightarrow> x i = 0"
  using d
proof (induction d)
  case 0
  show ?case by simp
next
  case (Suc d)
  then have IH: "\<forall>i. n - d \<le> i \<and> i < n \<longrightarrow> x i = 0" by simp
  define l0 where "l0 = n - Suc d"
  have l0: "l0 < n" "n - d = Suc l0"
    using Suc.prems by (auto simp: l0_def)
  have split: "{l0..<n} = insert l0 {Suc l0..<n}"
    using l0 by auto
  have "(\<Sum>i\<in>{l0..<n}. m i l0 * x i) = m l0 l0 * x l0 + (\<Sum>i\<in>{Suc l0..<n}. m i l0 * x i)"
    by (simp add: split)
  also have "(\<Sum>i\<in>{Suc l0..<n}. m i l0 * x i) = 0"
    using IH l0 by (intro sum.neutral) auto
  finally have "m l0 l0 * x l0 = 0"
    using zero l0 by simp
  then have here: "x l0 = 0" using diag l0 by simp
  show ?case
  proof (intro allI impI)
    fix i
    assume "n - Suc d \<le> i \<and> i < n"
    then have "i = l0 \<or> (n - d \<le> i \<and> i < n)"
      using l0 by (auto simp: l0_def)
    then show "x i = 0" using here IH by blast
  qed
qed

lemma llt_inv_positiveDefinite:
  assumes inv: "llt_inv n M n m'" and sym: "symmetric n M"
  shows "positiveDefinite n M"
  unfolding positiveDefinite_def
proof (intro conjI allI impI)
  show "symmetric n M" by (rule sym)
next
  fix x :: Vector
  assume nz: "\<exists>i<n. x i \<noteq> 0"
  define L where "L = (\<lambda>i l. if l \<le> i then m' i l else 0)"
  define c where "c = (\<lambda>l. \<Sum>i<n. L i l * x i)"
  have "quadForm n M x = (\<Sum>i<n. \<Sum>j<n. x i * (\<Sum>l<n. L i l * L j l) * x j)"
    unfolding quadForm_def L_def
    by (intro sum.cong refl) (simp add: llt_inv_gram [OF inv sym])
  also have "\<dots> = (\<Sum>l<n. c l * c l)"
    unfolding c_def by (rule gram_quadratic)
  finally have q: "quadForm n M x = (\<Sum>l<n. c l * c l)" .
  have "\<exists>l<n. c l \<noteq> 0"
  proof (rule ccontr)
    assume "\<not> ?thesis"
    then have c0: "\<And>l. l < n \<Longrightarrow> c l = 0" by blast
    have "(\<Sum>i\<in>{l..<n}. m' i l * x i) = 0" if "l < n" for l
    proof -
      have sub: "{l..<n} \<subseteq> {..<n}" by auto
      have "c l = (\<Sum>i\<in>{l..<n}. L i l * x i)"
        unfolding c_def by (intro sum.mono_neutral_right [OF _ sub]) (auto simp: L_def)
      also have "\<dots> = (\<Sum>i\<in>{l..<n}. m' i l * x i)"
        by (intro sum.cong refl) (auto simp: L_def)
      finally show ?thesis using c0 [OF that] by simp
    qed
    moreover have "\<forall>l<n. m' l l \<noteq> 0"
      using inv by (fastforce simp: llt_inv_def)
    ultimately have "\<forall>i. n - n \<le> i \<and> i < n \<longrightarrow> x i = 0"
      using upper_triangular_kernel [of n m' x n] by simp
    with nz show False by auto
  qed
  then obtain l where l: "l < n" "c l \<noteq> 0" by blast
  have "0 < c l * c l" using l(2) by (auto simp: zero_less_mult_iff)
  also have "c l * c l \<le> (\<Sum>l<n. c l * c l)"
    using l(1) by (intro member_le_sum) auto
  finally show "0 < quadForm n M x" by (simp add: q)
qed

theorem llt_failure_detected:
  assumes sym: "symmetric n M" and npd: "\<not> positiveDefinite n M"
  shows "m_info (LLT_compute n M) = NumericalIssue"
proof (rule ccontr)
  assume "m_info (LLT_compute n M) \<noteq> NumericalIssue"
  then have "snd (llt_unblocked n [0..<n] M) = - 1"
    by (auto simp: LLT_compute_def Let_def split: if_splits)
  then obtain m' where "llt_unblocked n [0..<n] M = (m', - 1)"
    by (cases "llt_unblocked n [0..<n] M") auto
  from llt_unblocked_success [OF this llt_inv_init] have "llt_inv n M n m'" by simp
  from llt_inv_positiveDefinite [OF this sym] npd show False by simp
qed

subsection \<open>The inverse of a positive-definite matrix\<close>

lemma argmax_abs_range: "argmax_abs A k is p \<in> insert p (set is)"
  by (induction "is" arbitrary: p) auto

lemma argmax_abs_max:
  "i \<in> insert p (set is) \<Longrightarrow> \<bar>A i k\<bar> \<le> \<bar>A (argmax_abs A k is p) k\<bar>"
proof (induction "is" arbitrary: p i)
  case Nil
  then show ?case by simp
next
  case (Cons a "is")
  let ?p = "if \<bar>A p k\<bar> < \<bar>A a k\<bar> then a else p"
  have best: "\<bar>A ?p k\<bar> \<le> \<bar>A (argmax_abs A k is ?p) k\<bar>"
    by (rule Cons.IH) simp
  show ?case
  proof (cases "i \<in> set is")
    case True
    then have "i \<in> insert ?p (set is)" by simp
    from Cons.IH [OF this] show ?thesis by simp
  next
    case False
    with Cons.prems have "i = p \<or> i = a" by auto
    then have "\<bar>A i k\<bar> \<le> \<bar>A ?p k\<bar>" by auto
    with best show ?thesis by simp
  qed
qed

lemma pivot_row_range: "k < n \<Longrightarrow> k \<le> pivot_row n A k \<and> pivot_row n A k < n"
  using argmax_abs_range [of A k "[Suc k..<n]" k] by (auto simp: pivot_row_def)

lemma pivot_row_nonzero:
  assumes "k \<le> i" "i < n" "A i k \<noteq> 0"
  shows "A (pivot_row n A k) k \<noteq> 0"
proof -
  have "i \<in> insert k (set [Suc k..<n])" using assms by auto
  from argmax_abs_max [OF this, of A k] assms(3) show ?thesis
    by (auto simp: pivot_row_def)
qed

lemma unit_columns_sum:
  fixes A :: Matrix and c :: Vector
  assumes "\<forall>j<k. A i j = (if i = j then 1 else 0)" and "k \<le> n"
  shows "(\<Sum>j<n. A i j * (if j < k then c j else 0)) = (if i < k then c i else 0)"
proof -
  have sub: "{..<k} \<subseteq> {..<n}" using assms(2) by simp
  have "(\<Sum>j<n. A i j * (if j < k then c j else 0)) = (\<Sum>j<k. A i j * (if j < k then c j else 0))"
    by (intro sum.mono_neutral_right [OF _ sub]) auto
  also have "\<dots> = (\<Sum>j<k. if i = j then c j else 0)"
    using assms(1) by (intro sum.cong refl) auto
  also have "\<dots> = (if i < k then c i else 0)"
    by simp
  finally show ?thesis .
qed

lemma pivot_exists:
  assumes ns: "nonsingular n A" and unit: "\<forall>i<n. \<forall>j<k. A i j = (if i = j then 1 else 0)"
    and k: "k < n"
  shows "\<exists>i. k \<le> i \<and> i < n \<and> A i k \<noteq> 0"
proof (rule ccontr)
  assume "\<not> ?thesis"
  then have zero: "\<And>i. k \<le> i \<Longrightarrow> i < n \<Longrightarrow> A i k = 0" by blast
  define x where "x = (\<lambda>j. (if j < k then A j k else 0) - (if j = k then 1 else 0))"
  have "(\<Sum>j<n. A i j * x j) = 0" if i: "i < n" for i
  proof -
    have "(\<Sum>j<n. A i j * x j) =
        (\<Sum>j<n. A i j * (if j < k then A j k else 0)) - (\<Sum>j<n. A i j * (if j = k then 1 else 0))"
      by (simp add: x_def algebra_simps sum_subtractf)
    also have "(\<Sum>j<n. A i j * (if j < k then A j k else 0)) = (if i < k then A i k else 0)"
      using unit i k by (intro unit_columns_sum) auto
    also have "(\<Sum>j<n. A i j * (if j = k then 1 else 0)) = A i k"
      using k by (simp add: if_distrib [of "\<lambda>t. _ * t"] cong: if_cong)
    finally show ?thesis using zero [of i] i by auto
  qed
  with ns have "\<forall>j<n. x j = 0" by (simp add: nonsingular_def)
  with k have "x k = 0" by simp
  then show False by (simp add: x_def)
qed

lemma swap_rows_inv:
  assumes inv: "gj_inv n M k (A, B)" and p: "k \<le> p" "p < n"
  shows "gj_inv n M k (swap_rows p k A, swap_rows p k B)"
proof -
  have k: "k < n" using p by simp
  have ns: "nonsingular n A"
    and prod: "\<And>i j. i < n \<Longrightarrow> j < n \<Longrightarrow> (\<Sum>l<n. B i l * M l j) = A i j"
    and unit: "\<And>i j. i < n \<Longrightarrow> j < k \<Longrightarrow> A i j = (if i = j then 1 else 0)"
    using inv by (auto simp: gj_inv_def)
  have "nonsingular n (swap_rows p k A)"
    unfolding nonsingular_def
  proof (intro allI impI)
    fix x j
    assume zero: "\<forall>i<n. (\<Sum>j<n. swap_rows p k A i j * x j) = 0" and j: "j < n"
    have "(\<Sum>j<n. A i j * x j) = 0" if i: "i < n" for i
    proof -
      define i' where "i' = (if i = k then p else if i = p then k else i)"
      have "i' < n" using i p k by (simp add: i'_def)
      with zero have "(\<Sum>j<n. swap_rows p k A i' j * x j) = 0" by simp
      moreover have "swap_rows p k A i' = A i"
        by (auto simp: swap_rows_def i'_def fun_eq_iff)
      ultimately show ?thesis by simp
    qed
    with ns j show "x j = 0" by (simp add: nonsingular_def)
  qed
  moreover have "(\<Sum>l<n. swap_rows p k B i l * M l j) = swap_rows p k A i j"
    if "i < n" "j < n" for i j
    using that p k prod by (simp add: swap_rows_def)
  moreover have "swap_rows p k A i j = (if i = j then 1 else 0)" if "i < n" "j < k" for i j
    using that p k unit by (auto simp: swap_rows_def)
  ultimately show ?thesis by (simp add: gj_inv_def)
qed

lemma eliminate_inv:
  assumes inv: "gj_inv n M k (A, B)" and k: "k < n" and d: "A k k \<noteq> 0"
  shows "gj_inv n M (Suc k) (eliminate A k A, eliminate A k B)"
proof -
  have ns: "nonsingular n A"
    and prod: "\<And>i j. i < n \<Longrightarrow> j < n \<Longrightarrow> (\<Sum>l<n. B i l * M l j) = A i j"
    and unit: "\<And>i j. i < n \<Longrightarrow> j < k \<Longrightarrow> A i j = (if i = j then 1 else 0)"
    using inv by (auto simp: gj_inv_def)
  have row: "(\<Sum>j<n. eliminate A k X i j * y j) =
      (if i = k then (\<Sum>j<n. X k j * y j) / A k k
       else (\<Sum>j<n. X i j * y j) - A i k * ((\<Sum>j<n. X k j * y j) / A k k))" for X i y
    by (simp add: eliminate_def sum_divide_distrib sum_subtractf sum_distrib_left
        algebra_simps)
  have "nonsingular n (eliminate A k A)"
    unfolding nonsingular_def
  proof (intro allI impI)
    fix x j
    assume zero: "\<forall>i<n. (\<Sum>j<n. eliminate A k A i j * x j) = 0" and j: "j < n"
    from zero k have "(\<Sum>j<n. eliminate A k A k j * x j) = 0" by simp
    then have rk: "(\<Sum>j<n. A k j * x j) = 0"
      using d by (simp add: row)
    have "(\<Sum>j<n. A i j * x j) = 0" if i: "i < n" for i
    proof (cases "i = k")
      case True
      then show ?thesis using rk by simp
    next
      case False
      from zero i have "(\<Sum>j<n. eliminate A k A i j * x j) = 0" by simp
      then show ?thesis using False rk by (simp add: row)
    qed
    with ns j show "x j = 0" by (simp add: nonsingular_def)
  qed
  moreover have "(\<Sum>l<n. eliminate A k B i l * M l j) = eliminate A k A i j"
    if "i < n" "j < n" for i j
    using that k prod by (simp add: row [of B i "\<lambda>l. M l j"]) (simp add: eliminate_def)
  moreover have "eliminate A k A i j = (if i = j then 1 else 0)" if "i < n" "j < Suc k" for i j
  proof (cases "j = k")
    case True
    then show ?thesis using d by (simp add: eliminate_def)
  next
    case False
    with that have jk: "j < k" by simp
    have "A k j = 0" using unit [OF k jk] jk by simp
    then show ?thesis using unit [OF that(1) jk] jk by (auto simp: eliminate_def)
  qed
  ultimately show ?thesis by (simp add: gj_inv_def)
qed

lemma gauss_jordan_step_inv:
  assumes inv: "gj_inv n M k AB" and k: "k < n"
  shows "gj_inv n M (Suc k) (gauss_jordan_step n AB k)"
proof -
  obtain A B where AB: "AB = (A, B)" by (cases AB)
  define p where "p = pivot_row n A k"
  have p: "k \<le> p" "p < n"
    using pivot_row_range [OF k, of A] by (simp_all add: p_def)
  have ns: "nonsingular n A"
    and unit: "\<forall>i<n. \<forall>j<k. A i j = (if i = j then 1 else 0)"
    using inv by (auto simp: gj_inv_def AB)
  from pivot_exists [OF ns unit k] obtain i where "k \<le> i" "i < n" "A i k \<noteq> 0" by blast
  then have "A p k \<noteq> 0"
    unfolding p_def by (rule pivot_row_nonzero)
  then have d: "swap_rows p k A k k \<noteq> 0"
    by (simp add: swap_rows_def)
  have "gj_inv n M k (swap_rows p k A, swap_rows p k B)"
    using inv p unfolding AB by (rule swap_rows_inv)
  from eliminate_inv [OF this k d] show ?thesis
    by (simp add: gauss_jordan_step_def AB Let_def p_def)
qed

lemma gauss_jordan_inv:
  "gj_inv n M k AB \<Longrightarrow> k \<le> n \<Longrightarrow> gj_inv n M n (gauss_jordan n [k..<n] AB)"
proof (induction "n - k" arbitrary: k AB)
  case 0
  then show ?case by simp
next
  case (Suc d)
  then have k: "k < n" by simp
  have step: "gj_inv n M (Suc k) (gauss_jordan_step n AB k)"
    using Suc.prems(1) k by (rule gauss_jordan_step_inv)
  have "d = n - Suc k" using Suc.hyps(2) by simp
  from Suc.hyps(1) [OF this step] k show ?case
    by (simp add: upt_conv_Cons)
qed

lemma gj_inv_init: "nonsingular n M \<Longrightarrow> gj_inv n M 0 (M, Identity)"
  by (simp add: gj_inv_def Identity_def if_distrib [of "\<lambda>t. t * _"] cong: if_cong)

lemma inverse_matrix_left:
  assumes "nonsingular n M" and "i < n" "j < n"
  shows "(\<Sum>l<n. inverse_matrix n M i l * M l j) = Identity i j"
proof -
  from gauss_jordan_inv [OF gj_inv_init [OF assms(1)]]
  have "gj_inv n M n (gauss_jordan n [0..<n] (M, Identity))" by simp
  then show ?thesis
    using assms(2,3) by (simp add: gj_inv_def inverse_matrix_def Identity_def)
qed

lemma positiveDefinite_nonsingular:
  assumes "positiveDefinite n M"
  shows "nonsingular n M"
  unfolding nonsingular_def
proof (intro allI impI)
  fix x j
  assume zero: "\<forall>i<n. (\<Sum>j<n. M i j * x j) = 0" and j: "j < n"
  have "quadForm n M x = (\<Sum>i<n. x i * (\<Sum>j<n. M i j * x j))"
    by (simp add: quadForm_def sum_distrib_left mult.assoc)
  also have "\<dots> = 0"
    using zero by simp
  finally have "\<not> 0 < quadForm n M x" by simp
  with assms have "\<not> (\<exists>i<n. x i \<noteq> 0)"
    by (auto simp: positiveDefinite_def)
  with j show "x j = 0" by simp
qed

theorem inverse_matrix_correct:
  assumes pd: "positiveDefinite n M" and i: "i < n" and j: "j < n"
  shows "(\<Sum>l<n. inverse_matrix n M i l * M l j) = Identity i j"
    and "(\<Sum>l<n. M i l * inverse_matrix n M l j) = Identity i j"
    and "inverse_matrix n M i j = inverse_matrix n M j i"
proof -
  define B where "B = inverse_matrix n M"
  have left: "\<And>i j. i < n \<Longrightarrow> j < n \<Longrightarrow> (\<Sum>l<n. B i l * M l j) = Identity i j"
    unfolding B_def by (rule inverse_matrix_left [OF positiveDefinite_nonsingular [OF pd]])
  have sym: "\<And>i j. i < n \<Longrightarrow> j < n \<Longrightarrow> M i j = M j i"
    using pd by (simp add: positiveDefinite_def symmetric_def)
  have right_t: "(\<Sum>l<n. M i l * B j l) = Identity i j" if "i < n" "j < n" for i j
  proof -
    have "(\<Sum>l<n. M i l * B j l) = (\<Sum>l<n. B j l * M l i)"
      using that by (intro sum.cong refl) (simp add: sym mult.commute)
    also have "\<dots> = Identity j i" by (rule left [OF that(2,1)])
    finally show ?thesis by (simp add: Identity_def)
  qed
  have symB: "B i j = B j i" if "i < n" "j < n" for i j
  proof -
    have "B i j = (\<Sum>l<n. B i l * Identity l j)"
      using that by (simp add: Identity_def if_distrib [of "\<lambda>t. _ * t"] cong: if_cong)
    also have "\<dots> = (\<Sum>l<n. B i l * (\<Sum>m<n. M l m * B j m))"
      using that by (intro sum.cong refl) (simp add: right_t)
    also have "\<dots> = (\<Sum>l<n. \<Sum>m<n. B i l * M l m * B j m)"
      by (simp add: sum_distrib_left mult.assoc)
    also have "\<dots> = (\<Sum>m<n. \<Sum>l<n. B i l * M l m * B j m)"
      by (rule sum.swap)
    also have "\<dots> = (\<Sum>m<n. (\<Sum>l<n. B i l * M l m) * B j m)"
      by (simp add: sum_distrib_right)
    also have "\<dots> = (\<Sum>m<n. Identity i m * B j m)"
      using that by (intro sum.cong refl) (simp add: left)
    also have "\<dots> = B j i"
      using that by (simp add: Identity_def if_distrib [of "\<lambda>t. t * _"] cong: if_cong)
    finally show ?thesis .
  qed
  show "(\<Sum>l<n. inverse_matrix n M i l * M l j) = Identity i j"
    using left [OF i j] by (simp add: B_def)
  show "inverse_matrix n M i j = inverse_matrix n M j i"
    using symB [OF i j] by (simp add: B_def)
  have "(\<Sum>l<n. M i l * B l j) = (\<Sum>l<n. M i l * B j l)"
    using j by (intro sum.cong refl) (simp add: symB)
  then show "(\<Sum>l<n. M i l * inverse_matrix n M l j) = Identity i j"
    using right_t [OF i j] by (simp add: B_def)
qed

subsection \<open>setInformation\<close>

lemma setInformation_fields:
  "information_m (setInformation M this) = M"
  "covariance_m (setInformation M this) = inverse_matrix 6 M"
  "squareRootInformation_m (setInformation M this) = transposed (matrixL (LLT_compute 6 M))"
  "T_AB_m (setInformation M this) = T_AB_m this"
  by (simp_all add: setInformation_def Let_def)

lemma quadForm_Identity: "quadForm n Identity x = (\<Sum>i<n. x i * x i)"
  by (simp add: quadForm_def Identity_def if_distrib [of "\<lambda>t. _ * t * _"]
      cong: if_cong)

lemma positiveDefinite_Identity: "positiveDefinite n Identity"
  unfolding positiveDefinite_def
proof (intro conjI allI impI)
  show "symmetric n Identity" by (auto simp: symmetric_def Identity_def)
next
  fix x :: Vector
  assume "\<exists>i<n. x i \<noteq> 0"
  then obtain i where i: "i < n" "x i \<noteq> 0" by blast
  have "0 < x i * x i" using i(2) by (auto simp: zero_less_mult_iff)
  also have "x i * x i \<le> (\<Sum>i<n. x i * x i)"
    using i(1) by (intro member_le_sum) auto
  finally show "0 < quadForm n Identity x" by (simp add: quadForm_Identity)
qed

lemma not_positiveDefinite_zero: "\<not> positiveDefinite 6 exZeroMatrix"
proof
  assume "positiveDefinite 6 exZeroMatrix"
  then have "\<forall>x. (\<exists>i<6. x i \<noteq> 0) \<longrightarrow> 0 < quadForm 6 exZeroMatrix x"
    by (simp add: positiveDefinite_def)
  then have "(\<exists>i<6::nat. (1::real) \<noteq> 0) \<longrightarrow> 0 < quadForm 6 exZeroMatrix (\<lambda>i. 1)"
    by (rule spec)
  moreover have "\<exists>i<6::nat. (1::real) \<noteq> 0"
    by (intro exI [of _ 0]) simp
  ultimately have "0 < quadForm 6 exZeroMatrix (\<lambda>i. 1)" by (rule mp)
  then show False by (simp add: quadForm_def exZeroMatrix_def)
qed

text \<open>
  C6. For a symmetric positive-definite \<open>6 \<times> 6\<close> matrix \<open>M\<close>, \<open>setInformation\<close> stores \<open>M\<close>,
  a covariance that is the inverse of \<open>M\<close> (its products with \<open>M\<close> on either side are the
  identity) and, as square-root information \<open>R\<close>, the transpose of the lower factor of a
  decomposition that succeeded: \<open>R\<close> is upper triangular with a positive diagonal and
  \<open>R\<^sup>T R = M\<close>. In exact arithmetic the equalities hold without a tolerance; \<open>i\<close> and \<open>j\<close>
  range over the coefficients.
\<close>

theorem setInformation_covariance_and_square_root:
  assumes "positiveDefinite 6 M" and "i < 6" and "j < 6"
  shows "information_m (setInformation M this) = M \<and>
    mat_mul 6 M (covariance_m (setInformation M this)) i j = Identity i j \<and>
    mat_mul 6 (covariance_m (setInformation M this)) M i j = Identity i j \<and>
    squareRootInformation_m (setInformation M this) = transposed (matrixL (LLT_compute 6 M)) \<and>
    m_info (LLT_compute 6 M) = Success \<and>
    mat_mul 6 (transposed (squareRootInformation_m (setInformation M this)))
      (squareRootInformation_m (setInformation M this)) i j = M i j \<and>
    (j < i \<longrightarrow> squareRootInformation_m (setInformation M this) i j = 0) \<and>
    0 < squareRootInformation_m (setInformation M this) i i"
  using inverse_matrix_correct(1,2) [OF assms] llt_correct(1) [OF assms(1)]
    llt_correct(2) [OF assms] llt_correct(3) [OF assms(1,2)]
  by (simp add: setInformation_fields mat_mul_def transposed_def matrixL_def)

theorem setInformation_covariance_and_square_root_witness:
  "positiveDefinite 6 Identity \<and> (3::nat) < 6 \<and> (2::nat) < 6 \<and>
   mat_mul 6 Identity (covariance_m (setInformation Identity (unassigned exIdentity))) 3 2
     = Identity 3 2 \<and>
   mat_mul 6 (covariance_m (setInformation Identity (unassigned exIdentity))) Identity 3 2
     = Identity 3 2 \<and>
   mat_mul 6 (transposed (squareRootInformation_m (setInformation Identity (unassigned exIdentity))))
      (squareRootInformation_m (setInformation Identity (unassigned exIdentity))) 3 2
     = Identity 3 2 \<and>
   squareRootInformation_m (setInformation Identity (unassigned exIdentity)) 3 2 = 0 \<and>
   0 < squareRootInformation_m (setInformation Identity (unassigned exIdentity)) 3 3"
proof -
  have n: "(3::nat) < 6" "(2::nat) < 6" "(2::nat) < 3" by simp_all
  from setInformation_covariance_and_square_root
          [OF positiveDefinite_Identity n(1,2), of "unassigned exIdentity"]
    positiveDefinite_Identity [of 6] n
  show ?thesis by blast
qed

subsection \<open>The residual\<close>

lemma Evaluate_residual:
  "EvaluateWithMinimalJacobians this parameters =
     (True, mat_vec 6 (squareRootInformation_m this)
              (errorVector (T_AB_m this) (estimatedTransform parameters)))"
  "Evaluate this parameters = EvaluateWithMinimalJacobians this parameters"
  by (simp_all add: EvaluateWithMinimalJacobians_def Evaluate_def estimatedTransform_def Let_def)

lemma all_less_6: "(\<forall>i<6. P i) \<longleftrightarrow> P 0 \<and> P 1 \<and> P 2 \<and> P 3 \<and> P 4 \<and> P (5::nat)"
proof -
  have "{..<6::nat} = {0, 1, 2, 3, 4, 5}" by auto
  then have "(\<forall>i<6. P i) \<longleftrightarrow> (\<forall>i\<in>{0, 1, 2, 3, 4, 5::nat}. P i)"
    by (metis lessThan_iff)
  then show ?thesis by simp
qed

lemma errorVector_zero_iff:
  "(\<forall>i<6. errorVector T_meas T_est i = 0) \<longleftrightarrow>
     T_r T_meas = T_r T_est \<and>
     qx (rotationDifference T_meas T_est) = 0 \<and> qy (rotationDifference T_meas T_est) = 0 \<and>
     qz (rotationDifference T_meas T_est) = 0"
proof -
  obtain a b c where m: "T_r T_meas = (a, b, c)" by (cases "T_r T_meas")
  obtain x y z where e: "T_r T_est = (x, y, z)" by (cases "T_r T_est")
  show ?thesis
    by (simp add: all_less_6 errorVector_def rotationDifference_def vec3_sub_def m e Let_def)
qed

lemma rotation_identity_iff:
  "toRotationMatrix p = Identity3 \<longleftrightarrow> qx p = 0 \<and> qy p = 0 \<and> qz p = 0"
proof
  assume "qx p = 0 \<and> qy p = 0 \<and> qz p = 0"
  then show "toRotationMatrix p = Identity3"
    by (simp add: toRotationMatrix_def Identity3_def Let_def)
next
  assume id: "toRotationMatrix p = Identity3"
  then have "fst (fst (toRotationMatrix p)) = 1" "fst (snd (fst (snd (toRotationMatrix p)))) = 1"
    by (simp_all add: Identity3_def)
  then have e: "1 - 2 * (qy p * qy p + qz p * qz p) = 1"
    "1 - 2 * (qx p * qx p + qz p * qz p) = 1"
    unfolding toRotationMatrix_def Let_def by simp_all
  from e(1) have "qy p * qy p + qz p * qz p = 0" by argo
  moreover from e(2) have "qx p * qx p + qz p * qz p = 0" by argo
  ultimately show "qx p = 0 \<and> qy p = 0 \<and> qz p = 0"
    by simp
qed

lemma whitening_injective:
  assumes pd: "positiveDefinite n M"
  shows "(\<forall>i<n. mat_vec n (transposed (matrixL (LLT_compute n M))) e i = 0) \<longleftrightarrow>
         (\<forall>j<n. e j = 0)"
proof
  assume "\<forall>j<n. e j = 0"
  then show "\<forall>i<n. mat_vec n (transposed (matrixL (LLT_compute n M))) e i = 0"
    by (simp add: mat_vec_def)
next
  define L where "L = matrixL (LLT_compute n M)"
  assume "\<forall>i<n. mat_vec n (transposed (matrixL (LLT_compute n M))) e i = 0"
  then have zero: "\<And>l. l < n \<Longrightarrow> (\<Sum>i<n. L i l * e i) = 0"
    by (simp add: mat_vec_def transposed_def L_def)
  have "quadForm n M e = (\<Sum>i<n. \<Sum>j<n. e i * (\<Sum>l<n. L i l * L j l) * e j)"
    unfolding quadForm_def L_def
    by (intro sum.cong refl) (simp add: llt_correct(2) [OF pd])
  also have "\<dots> = (\<Sum>l<n. (\<Sum>i<n. L i l * e i) * (\<Sum>i<n. L i l * e i))"
    by (rule gram_quadratic)
  also have "\<dots> = 0"
    by (simp add: zero)
  finally have "\<not> 0 < quadForm n M e" by simp
  with pd have "\<not> (\<exists>i<n. e i \<noteq> 0)"
    by (auto simp: positiveDefinite_def)
  then show "\<forall>j<n. e j = 0" by simp
qed

text \<open>
  C1. The zero matrix is not positive definite and its decomposition fails, yet the
  constructor returns an error term: what the failed decomposition left is stored as
  square-root information, and the evaluation whitens with it and reports success.
\<close>

theorem setInformation_failure_counterexample:
  "\<not> positiveDefinite 6 exZeroMatrix \<and>
   m_info (LLT_compute 6 exZeroMatrix) = NumericalIssue \<and>
   squareRootInformation_m (RelativePoseError_information exZeroMatrix exIdentity) = exZeroMatrix \<and>
   EvaluateWithMinimalJacobians (RelativePoseError_information exZeroMatrix exIdentity)
     exParameters = (True, (\<lambda>i. 0))"
proof -
  have col: "llt_column 6 exZeroMatrix 0 = None"
    by (simp add: llt_column_def exZeroMatrix_def)
  have run: "llt_unblocked 6 [0..<6] exZeroMatrix = (exZeroMatrix, 0)"
    by (simp add: upt_conv_Cons col)
  have info: "m_info (LLT_compute 6 exZeroMatrix) = NumericalIssue"
    and mat: "m_matrix (LLT_compute 6 exZeroMatrix) = exZeroMatrix"
    by (simp_all add: LLT_compute_def run)
  have "matrixL (LLT_compute 6 exZeroMatrix) = exZeroMatrix"
    unfolding matrixL_def mat unfolding exZeroMatrix_def by simp
  then have sq: "squareRootInformation_m (RelativePoseError_information exZeroMatrix exIdentity)
      = exZeroMatrix"
    by (simp add: RelativePoseError_information_def setInformation_fields)
       (simp add: transposed_def exZeroMatrix_def)
  have "EvaluateWithMinimalJacobians (RelativePoseError_information exZeroMatrix exIdentity)
     exParameters = (True, (\<lambda>i. 0))"
    by (simp add: Evaluate_residual sq) (simp add: mat_vec_def exZeroMatrix_def)
  with not_positiveDefinite_zero info sq show ?thesis by simp
qed

text \<open>
  C1, as amended. \<open>setInformation\<close>, called directly or by a constructor, returns normally
  for every matrix: the square-root information is the transposed lower triangle of whatever
  the decomposition left, and the evaluation whitens with it. For a symmetric matrix that is
  not positive definite the decomposition does record its failure, in the status that
  \<open>setInformation\<close> never reads.
\<close>

theorem setInformation_failure_ignored:
  "squareRootInformation_m (setInformation M this) = transposed (matrixL (LLT_compute 6 M)) \<and>
   RelativePoseError_information M T_AB = setInformation M (unassigned T_AB) \<and>
   (\<exists>information. RelativePoseError_variance translationVariance rotationVariance T_AB =
      setInformation information (unassigned T_AB)) \<and>
   EvaluateWithMinimalJacobians (setInformation M this) parameters =
     (True, mat_vec 6 (transposed (matrixL (LLT_compute 6 M)))
              (errorVector (T_AB_m this) (estimatedTransform parameters))) \<and>
   (symmetric 6 M \<and> \<not> positiveDefinite 6 M \<longrightarrow> m_info (LLT_compute 6 M) = NumericalIssue)"
  using llt_failure_detected [of 6 M]
  by (auto simp: setInformation_fields RelativePoseError_information_def Evaluate_residual
      RelativePoseError_variance_def Let_def)

theorem setInformation_failure_ignored_witness:
  "symmetric 6 exZeroMatrix \<and> \<not> positiveDefinite 6 exZeroMatrix \<and>
   m_info (LLT_compute 6 exZeroMatrix) = NumericalIssue \<and>
   squareRootInformation_m (setInformation exZeroMatrix (unassigned exIdentity)) =
     transposed (matrixL (LLT_compute 6 exZeroMatrix))"
proof -
  have "symmetric 6 exZeroMatrix"
    by (simp add: symmetric_def exZeroMatrix_def)
  with setInformation_failure_ignored
         [of exZeroMatrix "unassigned exIdentity" exIdentity 1 1 exParameters]
    not_positiveDefinite_zero
  show ?thesis by blast
qed

subsection \<open>Unit quaternions and their rotation matrices\<close>

lemma quat_squaredNorm_nonneg: "0 \<le> quat_squaredNorm a"
  by (simp add: quat_squaredNorm_def)

lemma unit_normalized:
  assumes "quat_squaredNorm a \<noteq> 0"
  shows "unitQuaternion (quat_normalized a)"
proof -
  let ?z = "quat_squaredNorm a"
  have pos: "0 < ?z" using assms quat_squaredNorm_nonneg [of a] by simp
  have "qx a / sqrt ?z * (qx a / sqrt ?z) + qy a / sqrt ?z * (qy a / sqrt ?z)
      + qz a / sqrt ?z * (qz a / sqrt ?z) + qw a / sqrt ?z * (qw a / sqrt ?z)
      = (qx a * qx a + qy a * qy a + qz a * qz a + qw a * qw a) / (sqrt ?z * sqrt ?z)"
    by (simp add: add_divide_distrib)
  also have "\<dots> = ?z / ?z"
    using pos by (simp add: quat_squaredNorm_def)
  also have "\<dots> = 1" using pos by simp
  finally show ?thesis
    using pos by (simp add: unitQuaternion_def quat_normalized_def Let_def)
       (simp add: quat_squaredNorm_def)
qed

lemma unit_inverse:
  assumes "unitQuaternion a"
  shows "quat_inverse a = \<lparr>qw = qw a, qx = - qx a, qy = - qy a, qz = - qz a\<rparr>"
    and "unitQuaternion (quat_inverse a)"
proof -
  show inv: "quat_inverse a = \<lparr>qw = qw a, qx = - qx a, qy = - qy a, qz = - qz a\<rparr>"
    using assms by (simp add: quat_inverse_def unitQuaternion_def Let_def)
  show "unitQuaternion (quat_inverse a)"
    using assms unfolding inv by (simp add: unitQuaternion_def quat_squaredNorm_def)
qed

lemma unit_mult:
  assumes "unitQuaternion a" and "unitQuaternion b"
  shows "unitQuaternion (quat_mult a b)"
proof -
  have "quat_squaredNorm (quat_mult a b) = quat_squaredNorm a * quat_squaredNorm b"
    by (simp add: quat_squaredNorm_def quat_mult_def algebra_simps)
  then show ?thesis using assms by (simp add: unitQuaternion_def)
qed

lemma unit_estimated:
  assumes "quat_squaredNorm (quaternionOf (parameters 0)) \<noteq> 0"
    and "quat_squaredNorm (quaternionOf (parameters 1)) \<noteq> 0"
  shows "unitQuaternion (T_q (estimatedTransform parameters))"
  using assms
  by (simp add: estimatedTransform_def T_mult_def T_inverse_def poseOf_def
      quaternionOf_def [symmetric] unit_mult unit_inverse(2) unit_normalized)

lemma real_difference_scalar:
  fixes pw px py pz qw' qx' qy' qz' :: real
  assumes q: "qx' * qx' + qy' * qy' + qz' * qz' + qw' * qw' = 1"
    and e1: "pw * (- qx') + px * qw' + py * (- qz') - pz * (- qy') = 0"
    and e2: "pw * (- qy') + py * qw' + pz * (- qx') - px * (- qz') = 0"
    and e3: "pw * (- qz') + pz * qw' + px * (- qy') - py * (- qx') = 0"
  shows "pw = (pw * qw' + px * qx' + py * qy' + pz * qz') * qw'"
    and "px = (pw * qw' + px * qx' + py * qy' + pz * qz') * qx'"
    and "py = (pw * qw' + px * qx' + py * qy' + pz * qz') * qy'"
    and "pz = (pw * qw' + px * qx' + py * qy' + pz * qz') * qz'"
  using assms by algebra+

lemma four_square:
  fixes pw px py pz qw' qx' qy' qz' :: real
  shows "(pw * qw' + px * qx' + py * qy' + pz * qz') * (pw * qw' + px * qx' + py * qy' + pz * qz')
      + (pw * (- qx') + px * qw' + py * (- qz') - pz * (- qy'))
        * (pw * (- qx') + px * qw' + py * (- qz') - pz * (- qy'))
      + (pw * (- qy') + py * qw' + pz * (- qx') - px * (- qz'))
        * (pw * (- qy') + py * qw' + pz * (- qx') - px * (- qz'))
      + (pw * (- qz') + pz * qw' + px * (- qy') - py * (- qx'))
        * (pw * (- qz') + pz * qw' + px * (- qy') - py * (- qx'))
      = (px * px + py * py + pz * pz + pw * pw) * (qx' * qx' + qy' * qy' + qz' * qz' + qw' * qw')"
  by (simp add: algebra_simps)

lemma scaled_rotation:
  fixes s :: real
  assumes "s * s = 1"
  shows "toRotationMatrix \<lparr>qw = s * w, qx = s * x, qy = s * y, qz = s * z\<rparr> =
         toRotationMatrix \<lparr>qw = w, qx = x, qy = y, qz = z\<rparr>"
proof -
  have sc: "s * a * (s * b) = a * b" for a b :: real
  proof -
    have "s * a * (s * b) = (s * s) * (a * b)" by (simp add: mult_ac)
    then show ?thesis by (simp add: assms)
  qed
  show ?thesis
    by (simp add: toRotationMatrix_def Let_def sc)
qed

lemma same_rotation_if_difference_real:
  assumes p: "unitQuaternion a" and q: "unitQuaternion b"
    and e: "qx (quat_mult a (quat_inverse b)) = 0" "qy (quat_mult a (quat_inverse b)) = 0"
      "qz (quat_mult a (quat_inverse b)) = 0"
  shows "toRotationMatrix a = toRotationMatrix b"
proof -
  define s where "s = qw a * qw b + qx a * qx b + qy a * qy b + qz a * qz b"
  have p': "qx a * qx a + qy a * qy a + qz a * qz a + qw a * qw a = 1"
    and q': "qx b * qx b + qy b * qy b + qz b * qz b + qw b * qw b = 1"
    using p q by (simp_all add: unitQuaternion_def quat_squaredNorm_def)
  have e1: "qw a * (- qx b) + qx a * qw b + qy a * (- qz b) - qz a * (- qy b) = 0"
    and e2: "qw a * (- qy b) + qy a * qw b + qz a * (- qx b) - qx a * (- qz b) = 0"
    and e3: "qw a * (- qz b) + qz a * qw b + qx a * (- qy b) - qy a * (- qx b) = 0"
    using e by (simp_all add: unit_inverse(1) [OF q] quat_mult_def)
  have comp: "qw a = s * qw b" "qx a = s * qx b" "qy a = s * qy b" "qz a = s * qz b"
    unfolding s_def by (rule real_difference_scalar [OF q' e1 e2 e3])+
  have "s * s = 1"
    using four_square [of "qw a" "qw b" "qx a" "qx b" "qy a" "qy b" "qz a" "qz b"]
    by (simp only: e1 e2 e3 p' q' s_def [symmetric]) 
  from scaled_rotation [OF this, of "qw b" "qx b" "qy b" "qz b"]
  have "toRotationMatrix \<lparr>qw = qw a, qx = qx a, qy = qy a, qz = qz a\<rparr> =
        toRotationMatrix \<lparr>qw = qw b, qx = qx b, qy = qy b, qz = qz b\<rparr>"
    by (simp only: comp [symmetric])
  then show ?thesis by (simp add: toRotationMatrix_def)
qed

lemma rotation_product_rows:
  fixes pw px py pz qw' qx' qy' qz' :: real
  assumes p: "px * px + py * py + pz * pz + pw * pw = 1"
    and q: "qx' * qx' + qy' * qy' + qz' * qz' + qw' * qw' = 1"
  shows "1 - 2 * ((pw * (- qy') + py * qw' + pz * (- qx') - px * (- qz'))
                    * (pw * (- qy') + py * qw' + pz * (- qx') - px * (- qz'))
                + (pw * (- qz') + pz * qw' + px * (- qy') - py * (- qx'))
                    * (pw * (- qz') + pz * qw' + px * (- qy') - py * (- qx')))
     = (1 - 2 * (py * py + pz * pz)) * (1 - 2 * (qy' * qy' + qz' * qz'))
       + (2 * (px * py - pw * pz)) * (2 * (qx' * qy' - qw' * qz'))
       + (2 * (px * pz + pw * py)) * (2 * (qx' * qz' + qw' * qy'))"
    and "1 - 2 * ((pw * (- qx') + px * qw' + py * (- qz') - pz * (- qy'))
                    * (pw * (- qx') + px * qw' + py * (- qz') - pz * (- qy'))
                + (pw * (- qz') + pz * qw' + px * (- qy') - py * (- qx'))
                    * (pw * (- qz') + pz * qw' + px * (- qy') - py * (- qx')))
     = (2 * (px * py + pw * pz)) * (2 * (qx' * qy' + qw' * qz'))
       + (1 - 2 * (px * px + pz * pz)) * (1 - 2 * (qx' * qx' + qz' * qz'))
       + (2 * (py * pz - pw * px)) * (2 * (qy' * qz' - qw' * qx'))"
  using assms by algebra+

lemma rotation_rows_unit:
  fixes qw' qx' qy' qz' :: real
  assumes q: "qx' * qx' + qy' * qy' + qz' * qz' + qw' * qw' = 1"
  shows "(1 - 2 * (qy' * qy' + qz' * qz')) * (1 - 2 * (qy' * qy' + qz' * qz'))
       + (2 * (qx' * qy' - qw' * qz')) * (2 * (qx' * qy' - qw' * qz'))
       + (2 * (qx' * qz' + qw' * qy')) * (2 * (qx' * qz' + qw' * qy')) = 1"
    and "(2 * (qx' * qy' + qw' * qz')) * (2 * (qx' * qy' + qw' * qz'))
       + (1 - 2 * (qx' * qx' + qz' * qz')) * (1 - 2 * (qx' * qx' + qz' * qz'))
       + (2 * (qy' * qz' - qw' * qx')) * (2 * (qy' * qz' - qw' * qx')) = 1"
  using assms by algebra+

lemma difference_real_if_same_rotation:
  assumes p: "unitQuaternion a" and q: "unitQuaternion b"
    and same: "toRotationMatrix a = toRotationMatrix b"
  shows "toRotationMatrix (quat_mult a (quat_inverse b)) = Identity3"
proof -
  let ?d = "quat_mult a (quat_inverse b)"
  have p': "qx a * qx a + qy a * qy a + qz a * qz a + qw a * qw a = 1"
    and q': "qx b * qx b + qy b * qy b + qz b * qz b + qw b * qw b = 1"
    using p q by (simp_all add: unitQuaternion_def quat_squaredNorm_def)
  have d: "qx ?d = qw a * (- qx b) + qx a * qw b + qy a * (- qz b) - qz a * (- qy b)"
    "qy ?d = qw a * (- qy b) + qy a * qw b + qz a * (- qx b) - qx a * (- qz b)"
    "qz ?d = qw a * (- qz b) + qz a * qw b + qx a * (- qy b) - qy a * (- qx b)"
    by (simp_all add: unit_inverse(1) [OF q] quat_mult_def)
  have rows: "1 - 2 * (qy a * qy a + qz a * qz a) = 1 - 2 * (qy b * qy b + qz b * qz b)"
    "2 * (qx a * qy a - qw a * qz a) = 2 * (qx b * qy b - qw b * qz b)"
    "2 * (qx a * qz a + qw a * qy a) = 2 * (qx b * qz b + qw b * qy b)"
    "2 * (qx a * qy a + qw a * qz a) = 2 * (qx b * qy b + qw b * qz b)"
    "1 - 2 * (qx a * qx a + qz a * qz a) = 1 - 2 * (qx b * qx b + qz b * qz b)"
    "2 * (qy a * qz a - qw a * qx a) = 2 * (qy b * qz b - qw b * qx b)"
    using same unfolding toRotationMatrix_def Let_def by simp_all
  have "1 - 2 * (qy ?d * qy ?d + qz ?d * qz ?d) = 1"
    unfolding d
    by (simp only: rotation_product_rows(1) [OF p' q'] rows rotation_rows_unit(1) [OF q'])
  then have yz: "qy ?d * qy ?d + qz ?d * qz ?d = 0" by argo
  have "1 - 2 * (qx ?d * qx ?d + qz ?d * qz ?d) = 1"
    unfolding d
    by (simp only: rotation_product_rows(2) [OF p' q'] rows rotation_rows_unit(2) [OF q'])
  then have xz: "qx ?d * qx ?d + qz ?d * qz ?d = 0" by argo
  from yz xz have "qx ?d = 0 \<and> qy ?d = 0 \<and> qz ?d = 0"
    by simp
  then show ?thesis by (simp only: rotation_identity_iff)
qed

lemma same_rotation_iff:
  assumes "unitQuaternion a" and "unitQuaternion b"
  shows "toRotationMatrix (quat_mult a (quat_inverse b)) = Identity3 \<longleftrightarrow>
         toRotationMatrix a = toRotationMatrix b"
  using same_rotation_if_difference_real [OF assms] difference_real_if_same_rotation [OF assms]
  by (auto simp: rotation_identity_iff)

subsection \<open>Transformations as maps on points\<close>

lemma unit_homogeneous:
  assumes "unitQuaternion p"
  shows "toRotationMatrix p = homogeneousRotation p"
proof -
  have n: "qx p * qx p + qy p * qy p + qz p * qz p + qw p * qw p = 1"
    using assms by (simp add: unitQuaternion_def quat_squaredNorm_def)
  have "1 - 2 * (qy p * qy p + qz p * qz p) = qw p * qw p + qx p * qx p - qy p * qy p - qz p * qz p"
    "1 - 2 * (qx p * qx p + qz p * qz p) = qw p * qw p - qx p * qx p + qy p * qy p - qz p * qz p"
    "1 - 2 * (qx p * qx p + qy p * qy p) = qw p * qw p - qx p * qx p - qy p * qy p + qz p * qz p"
    using n by argo+
  then show ?thesis
    by (simp add: toRotationMatrix_def homogeneousRotation_def Let_def)
qed

lemma homogeneous_mult:
  "mat3_vec (homogeneousRotation (quat_mult a b)) v =
   mat3_vec (homogeneousRotation a) (mat3_vec (homogeneousRotation b) v)"
proof -
  obtain x y z where v: "v = (x, y, z)" by (cases v)
  show ?thesis
    unfolding v homogeneousRotation_def quat_mult_def mat3_vec_def Let_def
    by (simp add: algebra_simps)
qed


lemma rotation_mult:
  assumes "unitQuaternion a" and "unitQuaternion b"
  shows "mat3_vec (toRotationMatrix (quat_mult a b)) v =
         mat3_vec (toRotationMatrix a) (mat3_vec (toRotationMatrix b) v)"
  by (simp only: unit_homogeneous [OF assms(1)] unit_homogeneous [OF assms(2)]
      unit_homogeneous [OF unit_mult [OF assms]] homogeneous_mult)

lemma inverse_mult_unit:
  assumes "unitQuaternion a"
  shows "quat_mult (quat_inverse a) a = \<lparr>qw = 1, qx = 0, qy = 0, qz = 0\<rparr>"
    and "quat_mult a (quat_inverse a) = \<lparr>qw = 1, qx = 0, qy = 0, qz = 0\<rparr>"
proof -
  have n: "qw a * qw a + qx a * qx a + qy a * qy a + qz a * qz a = 1"
    using assms by (simp add: unitQuaternion_def quat_squaredNorm_def)
  show "quat_mult (quat_inverse a) a = \<lparr>qw = 1, qx = 0, qy = 0, qz = 0\<rparr>"
    unfolding unit_inverse(1) [OF assms] quat_mult_def using n by (simp add: algebra_simps)
  show "quat_mult a (quat_inverse a) = \<lparr>qw = 1, qx = 0, qy = 0, qz = 0\<rparr>"
    unfolding unit_inverse(1) [OF assms] quat_mult_def using n by (simp add: algebra_simps)
qed

lemma rotation_one: "mat3_vec (toRotationMatrix \<lparr>qw = 1, qx = 0, qy = 0, qz = 0\<rparr>) v = v"
  by (cases v) (simp add: toRotationMatrix_def mat3_vec_def Let_def)

lemma unit_one: "unitQuaternion \<lparr>qw = 1, qx = 0, qy = 0, qz = 0\<rparr>"
  by (simp add: unitQuaternion_def quat_squaredNorm_def)

lemma rotation_inverse:
  assumes "unitQuaternion a"
  shows "mat3_vec (toRotationMatrix (quat_inverse a)) (mat3_vec (toRotationMatrix a) v) = v"
    and "mat3_vec (toRotationMatrix a) (mat3_vec (toRotationMatrix (quat_inverse a)) v) = v"
proof -
  note inv = unit_inverse(2) [OF assms]
  show "mat3_vec (toRotationMatrix (quat_inverse a)) (mat3_vec (toRotationMatrix a) v) = v"
    using rotation_mult [OF inv assms, of v]
    by (simp add: inverse_mult_unit(1) [OF assms] rotation_one)
  show "mat3_vec (toRotationMatrix a) (mat3_vec (toRotationMatrix (quat_inverse a)) v) = v"
    using rotation_mult [OF assms inv, of v]
    by (simp add: inverse_mult_unit(2) [OF assms] rotation_one)
qed

lemma rotation_inverse_transpose:
  assumes "unitQuaternion a"
  shows "toRotationMatrix (quat_inverse a) = mat3_transpose (toRotationMatrix a)"
  unfolding unit_inverse(1) [OF assms]
  by (simp add: toRotationMatrix_def mat3_transpose_def Let_def)

lemma mat3_vec_add:
  "mat3_vec C (vec3_add u v) = vec3_add (mat3_vec C u) (mat3_vec C v)"
proof -
  obtain r0 r1 r2 where C: "C = (r0, r1, r2)" by (cases C)
  obtain c00 c01 c02 where r0: "r0 = (c00, c01, c02)" by (cases r0)
  obtain c10 c11 c12 where r1: "r1 = (c10, c11, c12)" by (cases r1)
  obtain c20 c21 c22 where r2: "r2 = (c20, c21, c22)" by (cases r2)
  obtain a b c where u: "u = (a, b, c)" by (cases u)
  obtain x y z where v: "v = (x, y, z)" by (cases v)
  show ?thesis
    by (simp add: C r0 r1 r2 u v mat3_vec_def vec3_add_def algebra_simps)
qed

lemma mat3_vec_neg:
  "mat3_vec C (vec3_neg v) = vec3_neg (mat3_vec C v)"
proof -
  obtain r0 r1 r2 where C: "C = (r0, r1, r2)" by (cases C)
  obtain c00 c01 c02 where r0: "r0 = (c00, c01, c02)" by (cases r0)
  obtain c10 c11 c12 where r1: "r1 = (c10, c11, c12)" by (cases r1)
  obtain c20 c21 c22 where r2: "r2 = (c20, c21, c22)" by (cases r2)
  obtain x y z where v: "v = (x, y, z)" by (cases v)
  show ?thesis
    by (simp add: C r0 r1 r2 v mat3_vec_def vec3_neg_def algebra_simps)
qed

lemma vec3_add_assoc: "vec3_add (vec3_add u v) w = vec3_add u (vec3_add v w)"
  by (cases u, cases v, cases w) (simp add: vec3_add_def)

lemma vec3_add_neg: "vec3_add v (vec3_neg v) = (0, 0, 0)" "vec3_add (vec3_neg v) v = (0, 0, 0)"
  by (cases v, simp add: vec3_add_def vec3_neg_def)+

lemma vec3_add_zero: "vec3_add v (0, 0, 0) = v" "vec3_add (0, 0, 0) v = v"
  by (cases v, simp add: vec3_add_def)+

lemma transformPoint_mult:
  assumes "unitQuaternion (T_q T1)" and "unitQuaternion (T_q T2)"
  shows "transformPoint (T_mult T1 T2) v = transformPoint T1 (transformPoint T2 v)"
  by (simp add: transformPoint_def T_mult_def T_C_def rotation_mult [OF assms] mat3_vec_add
      vec3_add_assoc)

lemma transformPoint_inverse:
  assumes "unitQuaternion (T_q T)"
  shows "transformPoint (T_inverse T) (transformPoint T v) = v"
    and "transformPoint T (transformPoint (T_inverse T) v) = v"
proof -
  let ?C = "toRotationMatrix (T_q T)" and ?D = "toRotationMatrix (quat_inverse (T_q T))"
  have r: "T_r (T_inverse T) = vec3_neg (mat3_vec ?D (T_r T))"
    and c: "T_C (T_inverse T) = ?D"
    by (simp_all add: T_inverse_def T_C_def rotation_inverse_transpose [OF assms])
  have "transformPoint (T_inverse T) (transformPoint T v) =
        vec3_add (vec3_add (mat3_vec ?D (mat3_vec ?C v)) (mat3_vec ?D (T_r T)))
          (vec3_neg (mat3_vec ?D (T_r T)))"
    by (simp add: transformPoint_def r c mat3_vec_add) (simp add: T_C_def)
  also have "\<dots> = v"
    by (simp add: vec3_add_assoc vec3_add_neg vec3_add_zero rotation_inverse(1) [OF assms])
  finally show "transformPoint (T_inverse T) (transformPoint T v) = v" .
  have "transformPoint T (transformPoint (T_inverse T) v) =
        vec3_add (vec3_add (mat3_vec ?C (mat3_vec ?D v))
          (vec3_neg (mat3_vec ?C (mat3_vec ?D (T_r T))))) (T_r T)"
    by (simp add: transformPoint_def r c mat3_vec_add mat3_vec_neg) (simp add: T_C_def)
  also have "\<dots> = v"
    by (simp add: vec3_add_assoc vec3_add_neg vec3_add_zero rotation_inverse(2) [OF assms])
  finally show "transformPoint T (transformPoint (T_inverse T) v) = v" .
qed

lemma mat3_ext:
  assumes "\<And>v. mat3_vec C v = mat3_vec D v"
  shows "C = D"
proof -
  obtain r0 r1 r2 where C: "C = (r0, r1, r2)" by (cases C)
  obtain c00 c01 c02 where r0: "r0 = (c00, c01, c02)" by (cases r0)
  obtain c10 c11 c12 where r1: "r1 = (c10, c11, c12)" by (cases r1)
  obtain c20 c21 c22 where r2: "r2 = (c20, c21, c22)" by (cases r2)
  obtain s0 s1 s2 where D: "D = (s0, s1, s2)" by (cases D)
  obtain d00 d01 d02 where s0: "s0 = (d00, d01, d02)" by (cases s0)
  obtain d10 d11 d12 where s1: "s1 = (d10, d11, d12)" by (cases s1)
  obtain d20 d21 d22 where s2: "s2 = (d20, d21, d22)" by (cases s2)
  from assms [of "(1, 0, 0)"] assms [of "(0, 1, 0)"] assms [of "(0, 0, 1)"]
  show ?thesis
    by (simp add: C r0 r1 r2 D s0 s1 s2 mat3_vec_def)
qed

lemma mat3_vec_zero: "mat3_vec C (0, 0, 0) = (0, 0, 0)"
proof -
  obtain r0 r1 r2 where C: "C = (r0, r1, r2)" by (cases C)
  obtain c00 c01 c02 where r0: "r0 = (c00, c01, c02)" by (cases r0)
  obtain c10 c11 c12 where r1: "r1 = (c10, c11, c12)" by (cases r1)
  obtain c20 c21 c22 where r2: "r2 = (c20, c21, c22)" by (cases r2)
  show ?thesis by (simp add: C r0 r1 r2 mat3_vec_def)
qed

lemma vec3_add_cancel: "vec3_add u w = vec3_add v w \<longleftrightarrow> u = v"
  by (cases u, cases v, cases w) (simp add: vec3_add_def)

lemma transformPoint_eq_iff:
  "(\<forall>v. transformPoint T1 v = transformPoint T2 v) \<longleftrightarrow> T_r T1 = T_r T2 \<and> T_C T1 = T_C T2"
proof
  assume "T_r T1 = T_r T2 \<and> T_C T1 = T_C T2"
  then show "\<forall>v. transformPoint T1 v = transformPoint T2 v"
    by (simp add: transformPoint_def)
next
  assume eq: "\<forall>v. transformPoint T1 v = transformPoint T2 v"
  have "transformPoint T1 (0, 0, 0) = transformPoint T2 (0, 0, 0)"
    using eq by (rule spec)
  then have r: "T_r T1 = T_r T2"
    by (simp only: transformPoint_def mat3_vec_zero vec3_add_zero)
  have "mat3_vec (T_C T1) v = mat3_vec (T_C T2) v" for v
  proof -
    have "transformPoint T1 v = transformPoint T2 v"
      using eq by (rule spec)
    then show ?thesis
      by (simp only: transformPoint_def r vec3_add_cancel)
  qed
  then have "T_C T1 = T_C T2" by (rule mat3_ext)
  with r show "T_r T1 = T_r T2 \<and> T_C T1 = T_C T2" ..
qed


lemma ambientPose_poseOf: "poseOf p = ambientPose p"
  by (simp add: poseOf_def ambientPose_def quaternionOf_def)

lemma unit_ambientPose:
  assumes "quat_squaredNorm (quaternionOf p) \<noteq> 0"
  shows "unitQuaternion (T_q (ambientPose p))"
  using assms by (simp add: ambientPose_def unit_normalized)

lemma estimated_relates:
  assumes a: "quat_squaredNorm (quaternionOf (parameters 0)) \<noteq> 0"
    and b: "quat_squaredNorm (quaternionOf (parameters 1)) \<noteq> 0"
  shows "(T_r (estimatedTransform parameters) = T_r T \<and>
          T_C (estimatedTransform parameters) = T_C T) \<longleftrightarrow>
         (\<forall>v. transformPoint (ambientPose (parameters 0)) (transformPoint T v) =
               transformPoint (ambientPose (parameters 1)) v)"
proof -
  let ?A = "ambientPose (parameters 0)" and ?B = "ambientPose (parameters 1)"
  note ua = unit_ambientPose [OF a] and ub = unit_ambientPose [OF b]
  have ui: "unitQuaternion (T_q (T_inverse ?A))"
    using unit_inverse(2) [OF ua] by (simp add: T_inverse_def)
  have est: "transformPoint (estimatedTransform parameters) v =
             transformPoint (T_inverse ?A) (transformPoint ?B v)" for v
    by (simp only: estimatedTransform_def ambientPose_poseOf transformPoint_mult [OF ui ub])
  have "(T_r (estimatedTransform parameters) = T_r T \<and>
         T_C (estimatedTransform parameters) = T_C T) \<longleftrightarrow>
        (\<forall>v. transformPoint (T_inverse ?A) (transformPoint ?B v) = transformPoint T v)"
    by (simp only: transformPoint_eq_iff [symmetric] est)
  also have "\<dots> \<longleftrightarrow> (\<forall>v. transformPoint ?A (transformPoint T v) = transformPoint ?B v)"
  proof (intro iff_allI)
    fix v
    show "transformPoint (T_inverse ?A) (transformPoint ?B v) = transformPoint T v \<longleftrightarrow>
          transformPoint ?A (transformPoint T v) = transformPoint ?B v"
    proof
      assume "transformPoint (T_inverse ?A) (transformPoint ?B v) = transformPoint T v"
      then have "transformPoint ?A (transformPoint T v) =
                 transformPoint ?A (transformPoint (T_inverse ?A) (transformPoint ?B v))"
        by simp
      then show "transformPoint ?A (transformPoint T v) = transformPoint ?B v"
        by (simp only: transformPoint_inverse(2) [OF ua])
    next
      assume "transformPoint ?A (transformPoint T v) = transformPoint ?B v"
      then have "transformPoint (T_inverse ?A) (transformPoint ?B v) =
                 transformPoint (T_inverse ?A) (transformPoint ?A (transformPoint T v))"
        by simp
      then show "transformPoint (T_inverse ?A) (transformPoint ?B v) = transformPoint T v"
        by (simp only: transformPoint_inverse(1) [OF ua])
    qed
  qed
  finally show ?thesis .
qed

lemma example_poses:
  "ambientPose (exPoses 0) = \<lparr>T_r = (1, 2, 3), T_q = \<lparr>qw = 0, qx = 0, qy = 0, qz = 1\<rparr>\<rparr>"
  "ambientPose (exPoses 1) = \<lparr>T_r = (4, 6, 8), T_q = \<lparr>qw = 0, qx = 1, qy = 0, qz = 0\<rparr>\<rparr>"
  by (simp_all add: ambientPose_def exPoses_def quaternionOf_def quat_normalized_def
      quat_squaredNorm_def Let_def)

lemma example_relates:
  "transformPoint (ambientPose (exPoses 0)) (transformPoint exMeasured v) =
   transformPoint (ambientPose (exPoses 1)) v"
  unfolding example_poses
  by (cases v) (simp add: exMeasured_def transformPoint_def T_C_def
      toRotationMatrix_def mat3_vec_def vec3_add_def Let_def)

lemma example_not_relates:
  "transformPoint (ambientPose (exPoses 0)) (transformPoint exIdentity (0, 0, 0)) \<noteq>
   transformPoint (ambientPose (exPoses 1)) (0, 0, 0)"
  unfolding example_poses
  by (simp add: exIdentity_def transformPoint_def T_C_def
      toRotationMatrix_def mat3_vec_def vec3_add_def Let_def)

text \<open>
  C2. For an error term whose information is symmetric positive definite, the residual
  written by \<open>EvaluateWithMinimalJacobians\<close> (and by \<open>Evaluate\<close>, which is the same call) is
  the zero vector exactly when the estimated relative transform has the translation of the
  measurement and the rotation difference to the measurement is the identity rotation. When
  the measurement's quaternion has norm one and neither parameter block holds the zero
  quaternion, that is: exactly when the estimated transform and the measured one have the
  same translation and the same rotation matrix; and that is: exactly when the measured
  \<open>T_AB\<close> is \<open>inverse(pose A)\<close> composed with \<open>pose B\<close>, that is, when moving a point by
  \<open>T_AB\<close> and then by pose A is moving it by pose B, for the poses A and B that the two
  parameter blocks stand for.
\<close>

theorem residual_zero_iff_transforms_equal:
  assumes "positiveDefinite 6 information"
  shows "((\<forall>i<6. snd (EvaluateWithMinimalJacobians (setInformation information this) parameters) i = 0)
      \<longleftrightarrow>
      (T_r (estimatedTransform parameters) = T_r (T_AB_m this) \<and>
       toRotationMatrix (rotationDifference (T_AB_m this) (estimatedTransform parameters))
         = Identity3)) \<and>
    (unitQuaternion (T_q (T_AB_m this)) \<and>
     quat_squaredNorm (quaternionOf (parameters 0)) \<noteq> 0 \<and>
     quat_squaredNorm (quaternionOf (parameters 1)) \<noteq> 0 \<longrightarrow>
      ((\<forall>i<6. snd (EvaluateWithMinimalJacobians (setInformation information this) parameters) i = 0)
       \<longleftrightarrow>
       (T_r (estimatedTransform parameters) = T_r (T_AB_m this) \<and>
        T_C (estimatedTransform parameters) = T_C (T_AB_m this))) \<and>
      ((\<forall>i<6. snd (EvaluateWithMinimalJacobians (setInformation information this) parameters) i = 0)
       \<longleftrightarrow>
       (\<forall>v. transformPoint (ambientPose (parameters 0)) (transformPoint (T_AB_m this) v) =
             transformPoint (ambientPose (parameters 1)) v))) \<and>
    Evaluate (setInformation information this) parameters =
      EvaluateWithMinimalJacobians (setInformation information this) parameters"
proof (intro conjI impI)
  have "(\<forall>i<6. snd (EvaluateWithMinimalJacobians (setInformation information this) parameters) i = 0)
      \<longleftrightarrow> (\<forall>i<6. errorVector (T_AB_m this) (estimatedTransform parameters) i = 0)"
    using whitening_injective [OF assms]
    by (simp add: Evaluate_residual setInformation_fields)
  then show main: "(\<forall>i<6. snd (EvaluateWithMinimalJacobians (setInformation information this) parameters) i = 0)
      \<longleftrightarrow>
      (T_r (estimatedTransform parameters) = T_r (T_AB_m this) \<and>
       toRotationMatrix (rotationDifference (T_AB_m this) (estimatedTransform parameters))
         = Identity3)"
    by (auto simp: errorVector_zero_iff rotation_identity_iff)
  assume h: "unitQuaternion (T_q (T_AB_m this)) \<and>
     quat_squaredNorm (quaternionOf (parameters 0)) \<noteq> 0 \<and>
     quat_squaredNorm (quaternionOf (parameters 1)) \<noteq> 0"
  then have "unitQuaternion (T_q (T_AB_m this))"
    and "unitQuaternion (T_q (estimatedTransform parameters))"
    by (simp_all add: unit_estimated)
  from same_rotation_iff [OF this]
  have "toRotationMatrix (rotationDifference (T_AB_m this) (estimatedTransform parameters))
         = Identity3 \<longleftrightarrow>
        T_C (estimatedTransform parameters) = T_C (T_AB_m this)"
    by (auto simp: rotationDifference_def T_C_def)
  with main show matrices: "(\<forall>i<6. snd (EvaluateWithMinimalJacobians (setInformation information this) parameters) i = 0)
       \<longleftrightarrow>
       (T_r (estimatedTransform parameters) = T_r (T_AB_m this) \<and>
        T_C (estimatedTransform parameters) = T_C (T_AB_m this))"
    by simp
  from h have "quat_squaredNorm (quaternionOf (parameters 0)) \<noteq> 0"
    and "quat_squaredNorm (quaternionOf (parameters 1)) \<noteq> 0"
    by simp_all
  from estimated_relates [OF this, of "T_AB_m this"] matrices
  show "(\<forall>i<6. snd (EvaluateWithMinimalJacobians (setInformation information this) parameters) i = 0)
       \<longleftrightarrow>
       (\<forall>v. transformPoint (ambientPose (parameters 0)) (transformPoint (T_AB_m this) v) =
             transformPoint (ambientPose (parameters 1)) v)"
    by (simp only:)
next
  show "Evaluate (setInformation information this) parameters =
      EvaluateWithMinimalJacobians (setInformation information this) parameters"
    by (simp add: Evaluate_def)
qed

theorem residual_zero_iff_transforms_equal_witness:
  "positiveDefinite 6 Identity \<and>
   unitQuaternion (T_q (T_AB_m (unassigned exMeasured))) \<and>
   quat_squaredNorm (quaternionOf (exPoses 0)) \<noteq> 0 \<and>
   quat_squaredNorm (quaternionOf (exPoses 1)) \<noteq> 0 \<and>
   (\<forall>v. transformPoint (ambientPose (exPoses 0)) (transformPoint exMeasured v) =
         transformPoint (ambientPose (exPoses 1)) v) \<and>
   snd (EvaluateWithMinimalJacobians (setInformation Identity (unassigned exMeasured)) exPoses) 0 = 0 \<and>
   snd (EvaluateWithMinimalJacobians (setInformation Identity (unassigned exMeasured)) exPoses) 3 = 0 \<and>
   snd (EvaluateWithMinimalJacobians (setInformation Identity (unassigned exMeasured)) exPoses) 5 = 0 \<and>
   \<not> (\<forall>i<6. snd (EvaluateWithMinimalJacobians (setInformation Identity (unassigned exIdentity))
                    exPoses) i = 0)"
proof -
  have q: "quat_squaredNorm (quaternionOf (exPoses 0)) \<noteq> 0"
    "quat_squaredNorm (quaternionOf (exPoses 1)) \<noteq> 0"
    by (simp_all add: quat_squaredNorm_def quaternionOf_def exPoses_def)
  have u: "unitQuaternion (T_q (T_AB_m (unassigned exMeasured)))"
    "unitQuaternion (T_q (T_AB_m (unassigned exIdentity)))"
    by (simp_all add: unitQuaternion_def unassigned_def exMeasured_def exIdentity_def
        quat_squaredNorm_def)
  have m: "T_AB_m (unassigned exMeasured) = exMeasured" "T_AB_m (unassigned exIdentity) = exIdentity"
    by (simp_all add: unassigned_def)
  from residual_zero_iff_transforms_equal
         [OF positiveDefinite_Identity, of "unassigned exMeasured" exPoses] u(1) q example_relates
  have zero: "\<forall>i<6. snd (EvaluateWithMinimalJacobians (setInformation Identity
          (unassigned exMeasured)) exPoses) i = 0"
    by (simp only: m) blast
  from residual_zero_iff_transforms_equal
         [OF positiveDefinite_Identity, of "unassigned exIdentity" exPoses] u(2) q
    example_not_relates
  have nonzero: "\<not> (\<forall>i<6. snd (EvaluateWithMinimalJacobians (setInformation Identity
          (unassigned exIdentity)) exPoses) i = 0)"
    by (simp only: m) blast
  from zero have "snd (EvaluateWithMinimalJacobians (setInformation Identity
          (unassigned exMeasured)) exPoses) 0 = 0"
    "snd (EvaluateWithMinimalJacobians (setInformation Identity
          (unassigned exMeasured)) exPoses) 3 = 0"
    "snd (EvaluateWithMinimalJacobians (setInformation Identity
          (unassigned exMeasured)) exPoses) 5 = 0"
    by simp_all
  with q u(1) nonzero example_relates positiveDefinite_Identity [of 6] show ?thesis
    by (simp only: m) blast
qed

section \<open>Properties of the Component\<close>

text \<open>
  C8. \<open>load\<close> is atomic. When it returns success, the location held all four parts and the
  container's IMU parameters, camera-rig calibration, graph content and frame data are
  the persisted ones; when it returns failure, the container is the one before the call.
  There is no third outcome.
\<close>

theorem load_atomic:
  "(fst (load store path this) \<longrightarrow>
      (\<exists>stored. store path = Some stored \<and>
         storedImuParameters stored = Some (imuParameters_m (snd (load store path this))) \<and>
         storedNCameraSystem stored = Some (nCameraSystem_m (snd (load store path this))) \<and>
         storedGraph stored = Some (fullGraph_m (snd (load store path this))) \<and>
         storedMultiFrames stored = Some (multiFrames_m (snd (load store path this))))) \<and>
   (\<not> fst (load store path this) \<longrightarrow> snd (load store path this) = this)"
  by (auto simp: load_def split: option.splits)

theorem load_atomic_witness:
  "fst (load exStore ''session'' exComponent) \<and>
   imuParameters_m (snd (load exStore ''session'' exComponent)) = 5 \<and>
   fullGraph_m (snd (load exStore ''session'' exComponent)) = 6 \<and>
   \<not> fst (load exStore ''broken'' exComponent) \<and>
   snd (load exStore ''broken'' exComponent) = exComponent \<and>
   \<not> fst (load exStore ''missing'' exComponent) \<and>
   snd (load exStore ''missing'' exComponent) = exComponent"
proof -
  have s: "fst (load exStore ''session'' exComponent)"
    and b: "\<not> fst (load exStore ''broken'' exComponent)"
    and m: "\<not> fst (load exStore ''missing'' exComponent)"
    by (simp_all add: load_def exStore_def)
  have "imuParameters_m (snd (load exStore ''session'' exComponent)) = 5"
    "fullGraph_m (snd (load exStore ''session'' exComponent)) = 6"
    by (simp_all add: load_def exStore_def)
  with s b m load_atomic [of exStore "''broken''" exComponent]
    load_atomic [of exStore "''missing''" exComponent]
  show ?thesis by blast
qed

end
